theory Spec2Isabelle
  imports Main "HOL-Library.Word"
begin

section \<open>JavaScript strings\<close>

text \<open>
  A JavaScript string is a sequence of 16-bit UTF-16 code units; \<open>length\<close>,
  \<open>split('')\<close>, \<open>substring\<close> and the regular expressions of the source (none has the
  \<open>u\<close> flag) all work on code units. The model keeps that: a string is a list of
  16-bit words. ASCII literals of the source are written \<open>js ''...''\<close>, Cyrillic
  literals as their code units.
\<close>

type_synonym jschar = "16 word"
type_synonym jsstring = "jschar list"

definition js :: "string \<Rightarrow> jsstring" where
  "js s = map (\<lambda>c. of_nat (of_char c)) s"

section \<open>Transliteration\<close>

text \<open>
  The object literal \<open>rules\<close> of \<open>transliterate\<close> (04_image_processing.js), in the
  order of the source: the 33 lower-case letters, then the 33 upper-case letters.
  The hard and soft signs map to the empty string.
\<close>

definition rules :: "(jschar \<times> jsstring) list" where
  "rules =
   [(0x0430, js ''a''), (0x0431, js ''b''), (0x0432, js ''v''), (0x0433, js ''g''), (0x0434, js ''d''),
    (0x0435, js ''e''), (0x0451, js ''yo''), (0x0436, js ''zh''), (0x0437, js ''z''), (0x0438, js ''i''),
    (0x0439, js ''y''), (0x043A, js ''k''), (0x043B, js ''l''), (0x043C, js ''m''), (0x043D, js ''n''),
    (0x043E, js ''o''), (0x043F, js ''p''), (0x0440, js ''r''), (0x0441, js ''s''), (0x0442, js ''t''),
    (0x0443, js ''u''), (0x0444, js ''f''), (0x0445, js ''kh''), (0x0446, js ''ts''), (0x0447, js ''ch''),
    (0x0448, js ''sh''), (0x0449, js ''sch''), (0x044A, js ''''), (0x044B, js ''y''), (0x044C, js ''''),
    (0x044D, js ''e''), (0x044E, js ''yu''), (0x044F, js ''ya''),
    (0x0410, js ''A''), (0x0411, js ''B''), (0x0412, js ''V''), (0x0413, js ''G''), (0x0414, js ''D''),
    (0x0415, js ''E''), (0x0401, js ''Yo''), (0x0416, js ''Zh''), (0x0417, js ''Z''), (0x0418, js ''I''),
    (0x0419, js ''Y''), (0x041A, js ''K''), (0x041B, js ''L''), (0x041C, js ''M''), (0x041D, js ''N''),
    (0x041E, js ''O''), (0x041F, js ''P''), (0x0420, js ''R''), (0x0421, js ''S''), (0x0422, js ''T''),
    (0x0423, js ''U''), (0x0424, js ''F''), (0x0425, js ''Kh''), (0x0426, js ''Ts''), (0x0427, js ''Ch''),
    (0x0428, js ''Sh''), (0x0429, js ''Sch''), (0x042A, js ''''), (0x042B, js ''Y''), (0x042C, js ''''),
    (0x042D, js ''E''), (0x042E, js ''Yu''), (0x042F, js ''Ya'')]"

text \<open>
  \<open>rules[char] || char\<close>: a code unit that is no key of the table gives
  \<open>undefined\<close>, and a key whose value is the empty string gives a falsy value, so
  both keep the code unit itself.
\<close>

definition translit_char :: "jschar \<Rightarrow> jsstring" where
  "translit_char c =
     (case map_of rules c of
        None \<Rightarrow> [c]
      | Some v \<Rightarrow> if v = [] then [c] else v)"

text \<open>\<open>text.split('').map(char => rules[char] || char).join('')\<close>\<close>

definition transliterate :: "jsstring \<Rightarrow> jsstring" where
  "transliterate text = concat (map translit_char text)"

section \<open>String helpers of the platform\<close>

text \<open>
  White space as \<open>String.prototype.trim\<close> and the class \<open>\s\<close> see it (ECMAScript
  WhiteSpace and LineTerminator): tab, line feed, vertical tab, form feed, carriage
  return, space, no-break space, U+1680, U+2000 to U+200A, U+2028, U+2029, U+202F,
  U+205F, U+3000 and U+FEFF.
\<close>

definition is_space :: "jschar \<Rightarrow> bool" where
  "is_space c \<longleftrightarrow>
     (0x09 \<le> c \<and> c \<le> 0x0D) \<or> c = 0x20 \<or> c = 0xA0 \<or> c = 0x1680
     \<or> (0x2000 \<le> c \<and> c \<le> 0x200A) \<or> c = 0x2028 \<or> c = 0x2029 \<or> c = 0x202F
     \<or> c = 0x205F \<or> c = 0x3000 \<or> c = 0xFEFF"

definition trim :: "jsstring \<Rightarrow> jsstring" where
  "trim s = rev (dropWhile is_space (rev (dropWhile is_space s)))"

text \<open>
  \<open>s.replace(/X+/g, r)\<close> for a class \<open>X\<close> of code units: every maximal run of
  code units of the class is replaced by \<open>r\<close>. The flag \<open>in_run\<close> says that the
  code unit before belongs to a run already replaced.
\<close>

fun replace_runs_from :: "bool \<Rightarrow> (jschar \<Rightarrow> bool) \<Rightarrow> jsstring \<Rightarrow> jsstring \<Rightarrow> jsstring" where
  "replace_runs_from in_run X r [] = []"
| "replace_runs_from in_run X r (c # cs) =
     (if X c then (if in_run then [] else r) @ replace_runs_from True X r cs
      else c # replace_runs_from False X r cs)"

definition replace_runs :: "(jschar \<Rightarrow> bool) \<Rightarrow> jsstring \<Rightarrow> jsstring \<Rightarrow> jsstring" where
  "replace_runs X r s = replace_runs_from False X r s"

text \<open>
  \<open>s.split(sep)\<close> for a separator that is one code unit of a class (the string
  \<open>'.'\<close>, the regular expression \<open>/[\n,]/\<close>); the empty string splits into one
  empty part. \<open>parts.join(d)\<close> puts \<open>d\<close> between the parts.
\<close>

fun split_where :: "(jschar \<Rightarrow> bool) \<Rightarrow> jsstring \<Rightarrow> jsstring list" where
  "split_where sep [] = [[]]"
| "split_where sep (c # cs) =
     (if sep c then [] # split_where sep cs
      else (case split_where sep cs of
              [] \<Rightarrow> [[c]]
            | p # ps \<Rightarrow> (c # p) # ps))"

fun join_with :: "jsstring \<Rightarrow> jsstring list \<Rightarrow> jsstring" where
  "join_with d [] = []"
| "join_with d [p] = p"
| "join_with d (p # q # ps) = p @ d @ join_with d (q # ps)"

definition starts_with :: "jsstring \<Rightarrow> jsstring \<Rightarrow> bool" where
  "starts_with s prefix \<longleftrightarrow> take (length prefix) s = prefix"

text \<open>
  The decimal digits of a number put into a template literal or a string. The numbers
  of the source are image numbers and clock readings; JavaScript prints an integer
  below \<open>10^21\<close> in plain decimal.
\<close>

definition digit :: "nat \<Rightarrow> jschar" where
  "digit d = js ''0123456789'' ! (d mod 10)"

function decimal :: "nat \<Rightarrow> jsstring" where
  "decimal n = (if n < 10 then [digit n] else decimal (n div 10) @ [digit (n mod 10)])"
  by pat_completeness auto
termination
  by (relation "measure id") auto

declare decimal.simps [simp del]

text \<open>
  \<open>template.replace(pattern, replacement)\<close> with a string pattern that occurs once
  replaces that occurrence and expands the dollar patterns of the replacement
  (GetSubstitution): \<open>$$\<close> is a dollar sign, \<open>$&\<close> the matched text, \<open>$`\<close> the text
  before the match, \<open>$'\<close> the text after it. A string pattern has no capture groups,
  so every other dollar sign stands for itself.
\<close>

fun get_substitution :: "jsstring \<Rightarrow> jsstring \<Rightarrow> jsstring \<Rightarrow> jsstring \<Rightarrow> jsstring" where
  "get_substitution matched pre post (c # d # r) =
     (if c = 0x24 \<and> d = 0x24 then 0x24 # get_substitution matched pre post r
      else if c = 0x24 \<and> d = 0x26 then matched @ get_substitution matched pre post r
      else if c = 0x24 \<and> d = 0x60 then pre @ get_substitution matched pre post r
      else if c = 0x24 \<and> d = 0x27 then post @ get_substitution matched pre post r
      else c # get_substitution matched pre post (d # r))"
| "get_substitution matched pre post r = r"

section \<open>The platform\<close>

text \<open>
  Three builtins of the JavaScript engine are parameters of the model: the Unicode
  lower-casing \<open>String.prototype.toLowerCase\<close>, the case folding \<open>Canonicalize\<close>
  that a regular expression with the flag \<open>i\<close> (and without \<open>u\<close>) applies to single
  code units, and the clock reading \<open>Date.now()\<close>. The theorems hold for every
  platform; \<open>basic_platform\<close> is the one used to run the model on concrete inputs: it
  knows the cases of the ASCII letters and of the Cyrillic block U+0400 to U+045F.
\<close>

record platform =
  toLowerCase :: "jsstring \<Rightarrow> jsstring"
  canonicalize :: "jschar \<Rightarrow> jschar"
  dateNow :: nat

definition lower_basic :: "jschar \<Rightarrow> jschar" where
  "lower_basic c =
     (if (0x41 \<le> c \<and> c \<le> 0x5A) \<or> (0x410 \<le> c \<and> c \<le> 0x42F) then c + 0x20
      else if 0x400 \<le> c \<and> c \<le> 0x40F then c + 0x50
      else c)"

definition upper_basic :: "jschar \<Rightarrow> jschar" where
  "upper_basic c =
     (if (0x61 \<le> c \<and> c \<le> 0x7A) \<or> (0x430 \<le> c \<and> c \<le> 0x44F) then c - 0x20
      else if 0x450 \<le> c \<and> c \<le> 0x45F then c - 0x50
      else c)"

definition basic_platform :: "nat \<Rightarrow> platform" where
  "basic_platform t = \<lparr>toLowerCase = map lower_basic, canonicalize = upper_basic, dateNow = t\<rparr>"

section \<open>Validation of alt tags and file names\<close>

text \<open>
  \<open>IMAGE_PROCESSING_CONFIG\<close>: the two length limits and the two fallback templates,
  the Russian for "Image of the product", followed by a space and the placeholder
  \<open>{productName}\<close> (given by its code units up to the placeholder), and
  \<open>"product-image-{timestamp}"\<close>.
\<close>

definition ALT_TAG_MAX_LENGTH :: nat where
  "ALT_TAG_MAX_LENGTH = 125"

definition FILENAME_MAX_LENGTH :: nat where
  "FILENAME_MAX_LENGTH = 80"

definition FALLBACK_ALT_TAG_prefix :: jsstring where
  "FALLBACK_ALT_TAG_prefix =
     [0x418, 0x437, 0x43E, 0x431, 0x440, 0x430, 0x436, 0x435, 0x43D, 0x438, 0x435, 0x20,
      0x442, 0x43E, 0x432, 0x430, 0x440, 0x430, 0x20]"

definition fallback_alt_tag :: "jsstring \<Rightarrow> jsstring" where
  "fallback_alt_tag productName =
     FALLBACK_ALT_TAG_prefix
     @ get_substitution (js ''{productName}'') FALLBACK_ALT_TAG_prefix [] productName"

definition fallback_filename :: "platform \<Rightarrow> jsstring" where
  "fallback_filename pf = js ''product-image-'' @ decimal (dateNow pf)"

text \<open>
  The regular expression \<open>/\b(w1|w2|w3)\b/gi\<close> of \<open>validateAltTag\<close>, whose
  alternatives are the Russian words for "image", "photo" and "picture" in lower
  case, given here by their code units. Without the flag \<open>u\<close> the word characters
  of \<open>\b\<close> are the ASCII letters, the digits and the underscore, with or without
  the flag \<open>i\<close>.
\<close>

definition stop_words :: "jsstring list" where
  "stop_words =
     [[0x438, 0x437, 0x43E, 0x431, 0x440, 0x430, 0x436, 0x435, 0x43D, 0x438, 0x435],
      [0x444, 0x43E, 0x442, 0x43E],
      [0x43A, 0x430, 0x440, 0x442, 0x438, 0x43D, 0x43A, 0x430]]"

definition word_char :: "jschar \<Rightarrow> bool" where
  "word_char c \<longleftrightarrow>
     (0x61 \<le> c \<and> c \<le> 0x7A) \<or> (0x41 \<le> c \<and> c \<le> 0x5A) \<or> (0x30 \<le> c \<and> c \<le> 0x39) \<or> c = 0x5F"

fun char_at :: "jsstring \<Rightarrow> nat \<Rightarrow> jschar option" where
  "char_at [] i = None"
| "char_at (c # cs) 0 = Some c"
| "char_at (c # cs) (Suc i) = char_at cs i"

definition word_boundary :: "jschar option \<Rightarrow> jschar option \<Rightarrow> bool" where
  "word_boundary a b \<longleftrightarrow>
     (case a of None \<Rightarrow> False | Some c \<Rightarrow> word_char c)
     \<noteq> (case b of None \<Rightarrow> False | Some c \<Rightarrow> word_char c)"

fun match_ci :: "(jschar \<Rightarrow> jschar) \<Rightarrow> jsstring \<Rightarrow> jsstring \<Rightarrow> bool" where
  "match_ci canon [] s = True"
| "match_ci canon (p # ps) [] = False"
| "match_ci canon (p # ps) (c # cs) = (canon p = canon c \<and> match_ci canon ps cs)"

text \<open>
  A match of the expression at the head of \<open>s\<close>, where \<open>prev\<close> is the code unit
  before it: a boundary, the first alternative that matches and is followed by a
  boundary, and the length of the matched text.
\<close>

definition match_stop_word :: "(jschar \<Rightarrow> jschar) \<Rightarrow> jschar option \<Rightarrow> jsstring \<Rightarrow> nat option" where
  "match_stop_word canon prev s =
     (if word_boundary prev (char_at s 0)
      then map_option length
             (find (\<lambda>w. match_ci canon w s
                        \<and> word_boundary (char_at s (length w - 1)) (char_at s (length w)))
                stop_words)
      else None)"

text \<open>
  \<open>replace(regex, '')\<close> with the flag \<open>g\<close>: the matches are found from left to
  right on the input and deleted. \<open>skip\<close> counts the code units of the current match
  still to delete.
\<close>

fun remove_stop_words :: "(jschar \<Rightarrow> jschar) \<Rightarrow> jschar option \<Rightarrow> nat \<Rightarrow> jsstring \<Rightarrow> jsstring" where
  "remove_stop_words canon prev skip [] = []"
| "remove_stop_words canon prev skip (c # cs) =
     (if 0 < skip then remove_stop_words canon (Some c) (skip - 1) cs
      else (case match_stop_word canon prev (c # cs) of
              Some n \<Rightarrow> remove_stop_words canon (Some c) (n - 1) cs
            | None \<Rightarrow> c # remove_stop_words canon (Some c) 0 cs))"

definition validateAltTag :: "platform \<Rightarrow> jsstring \<Rightarrow> jsstring \<Rightarrow> jsstring" where
  "validateAltTag pf altTag productName =
     (if altTag = [] then fallback_alt_tag productName
      else
        let altTag = replace_runs is_space (js '' '') (trim altTag);
            altTag = (if length altTag > ALT_TAG_MAX_LENGTH
                      then take (ALT_TAG_MAX_LENGTH - 3) altTag @ js ''...''
                      else altTag)
        in trim (remove_stop_words (canonicalize pf) None 0 altTag))"

text \<open>
  \<open>validateSeoFilename\<close>: the part after the last dot is dropped, the name is
  lower-cased, every code unit outside \<open>[a-z0-9-]\<close> becomes a hyphen, runs of hyphens
  become one hyphen, hyphens at both ends are removed
  (\<open>replace(/^-+|-+$/g, '')\<close>), and the result is cut to \<open>FILENAME_MAX_LENGTH\<close>.
\<close>

definition filename_char :: "jschar \<Rightarrow> bool" where
  "filename_char c \<longleftrightarrow> (0x61 \<le> c \<and> c \<le> 0x7A) \<or> (0x30 \<le> c \<and> c \<le> 0x39) \<or> c = 0x2D"

definition is_hyphen :: "jschar \<Rightarrow> bool" where
  "is_hyphen c \<longleftrightarrow> c = 0x2D"

definition strip_extension :: "jsstring \<Rightarrow> jsstring" where
  "strip_extension filename =
     (let parts = split_where (\<lambda>c. c = 0x2E) filename
      in if length parts > 1 then join_with (js ''.'') (butlast parts) else filename)"

definition strip_hyphens :: "jsstring \<Rightarrow> jsstring" where
  "strip_hyphens s = rev (dropWhile is_hyphen (rev (dropWhile is_hyphen s)))"

definition clean_filename :: "platform \<Rightarrow> jsstring \<Rightarrow> jsstring" where
  "clean_filename pf name =
     strip_hyphens
       (replace_runs is_hyphen (js ''-'')
          (map (\<lambda>c. if filename_char c then c else 0x2D) (toLowerCase pf name)))"

definition validateSeoFilename :: "platform \<Rightarrow> jsstring \<Rightarrow> jsstring" where
  "validateSeoFilename pf filename =
     (if filename = [] then fallback_filename pf
      else
        let name = clean_filename pf (strip_extension filename);
            name = (if length name > FILENAME_MAX_LENGTH then take FILENAME_MAX_LENGTH name else name)
        in if name = [] then fallback_filename pf else name)"

section \<open>Asset locator\<close>

text \<open>
  One source cell of \<open>combineAllImages\<close>:
  \<open>cell.split(/[\n,]/).map(url => url.trim()).filter(url => url && url.startsWith('http'))\<close>.
\<close>

definition parse_urls :: "jsstring \<Rightarrow> jsstring list" where
  "parse_urls cell =
     filter (\<lambda>url. url \<noteq> [] \<and> starts_with url (js ''http''))
       (map trim (split_where (\<lambda>c. c = 0x0A \<or> c = 0x2C) cell))"

text \<open>
  \<open>[...new Set(allImages)]\<close>: a set keeps the insertion order and ignores a value
  that it holds already. \<open>seen\<close> is the set built so far.
\<close>

fun set_values :: "'a list \<Rightarrow> 'a list \<Rightarrow> 'a list" where
  "set_values seen [] = []"
| "set_values seen (x # xs) =
     (if x \<in> set seen then set_values seen xs else x # set_values (seen @ [x]) xs)"

text \<open>
  \<open>combineAllImages\<close>: the three cells are tried in the order of their priority
  (selected by the user, parsed from the supplier, original of the platform), each
  only while \<open>allImages\<close> is still empty. An empty cell is falsy and is skipped.
  The argument \<open>article\<close> is not used by the source.
\<close>

definition combineAllImages :: "jsstring \<Rightarrow> jsstring \<Rightarrow> jsstring \<Rightarrow> jsstring list" where
  "combineAllImages originalImages supplierImages additionalImages =
     (let allImages = [];
          allImages = (if additionalImages \<noteq> []
                       then allImages @ parse_urls additionalImages else allImages);
          allImages = (if allImages = [] \<and> supplierImages \<noteq> []
                       then allImages @ parse_urls supplierImages else allImages);
          allImages = (if allImages = [] \<and> originalImages \<noteq> []
                       then allImages @ parse_urls originalImages else allImages)
      in set_values [] allImages)"

text \<open>The batch of \<open>analyzeImageSimple\<close>: \<open>allImageUrls.slice(0, 10)\<close>.\<close>

definition imagesToProcess :: "jsstring list \<Rightarrow> jsstring list" where
  "imagesToProcess allImageUrls = take 10 allImageUrls"

section \<open>Configuration, results and exceptions\<close>

text \<open>
  The fields of \<open>getApiSettings()\<close> that decide which stages run; an empty string is
  a missing credential. The scale and the model of the upscaling only go into the
  request. \<open>getApiSettings\<close> can raise; a run whose settings cannot be read has no
  settings at all (\<open>None\<close>).
\<close>

record api_settings =
  openaiAltAssistantId :: jsstring
  replicateToken :: jsstring
  tinypngKey :: jsstring
  imgbbKey :: jsstring

datatype exn =
    NoImagesError
  | SettingsError
  | HttpError nat
  | FetchError
  | TimeoutError
  | RunError string
  | NoAnswerError
  | ReplicateError
  | TypeError

text \<open>
  A value read from the JSON of a service, as far as the source looks at it: a falsy
  value (\<open>null\<close>, \<open>undefined\<close>, \<open>false\<close>, \<open>0\<close>), a string, or another
  truthy value (an array, also the empty one, an object, a number). The source tests
  the output of a prediction and the URL of an upload for truthiness only and passes
  them on as they are, so the processed URL of an image is such a value.
\<close>

datatype jsvalue = Falsy | Str jsstring | Other

definition truthy :: "jsvalue \<Rightarrow> bool" where
  "truthy v = (case v of Falsy \<Rightarrow> False | Str s \<Rightarrow> s \<noteq> [] | Other \<Rightarrow> True)"


record description =
  altTag :: jsstring
  seoFilename :: jsstring

record enhancement =
  original :: jsstring
  processed :: jsvalue
  wasEnhanced :: bool
  error :: "exn option"

record pipeline_result = description +
  processedImageUrl :: jsvalue
  confidence :: nat

record product =
  article :: jsstring
  productName :: jsstring
  originalImages :: jsstring
  supplierImages :: jsstring
  additionalImages :: jsstring

text \<open>\<open>xs.map((x, index) => f(index, x))\<close>\<close>

definition map_index :: "(nat \<Rightarrow> 'a \<Rightarrow> 'b) \<Rightarrow> 'a list \<Rightarrow> 'b list" where
  "map_index f xs = map (\<lambda>(index, x). f index x) (enumerate 0 xs)"

section \<open>Polling the assistant run\<close>

text \<open>
  The replies of the analysis service to one sub-batch. A request that raises (the
  fetch itself, or \<open>JSON.parse\<close> of its body) is \<open>None\<close>; otherwise the reply is
  the response code, and for the run its status. \<open>statusPolls k\<close> answers the
  status request number \<open>k\<close> of the run. The text of the assistant is seen as
  \<open>parseAssistantBatchResponse\<close> sees it, through the regular expression
  \<open>/\{[\s\S]*"results"[\s\S]*\}/\<close> and \<open>JSON.parse\<close>: no match, a match that is not
  JSON, an object without an array \<open>results\<close>, or the items of that array. Of an
  item the model keeps the two properties read, each falsy, a string, or another
  truthy value; \<open>null\<close> has no properties.
\<close>

datatype result_item = NullItem | Item jsvalue jsvalue

datatype assistant_reply =
    NoJsonMatch
  | JsonSyntaxError
  | NoResultsArray
  | ResultsArray "result_item list"

datatype messages_reply = MessagesRaised | NoAssistantMessage | AssistantText assistant_reply

record group_io =
  threadCreated :: "nat option"
  messagePosted :: "nat option"
  runCreated :: "(nat \<times> string) option"
  statusPolls :: "nat \<Rightarrow> string option"
  messagesFetched :: messages_reply

text \<open>
  The loop of \<open>runAssistantAnalysis\<close>, with \<open>maxAttempts = 30\<close>. It returns the
  exception or the last status, and the sleeps it made, in milliseconds.
\<close>

definition maxAttempts :: nat where
  "maxAttempts = 30"

function poll_run :: "(nat \<Rightarrow> string option) \<Rightarrow> string \<Rightarrow> nat \<Rightarrow> (exn + string) \<times> nat list" where
  "poll_run polls status attempts =
     (if status = ''queued'' \<or> status = ''in_progress''
      then (case polls attempts of
              None \<Rightarrow> (Inl FetchError, [1000])
            | Some status' \<Rightarrow>
                if maxAttempts \<le> Suc attempts then (Inl TimeoutError, [1000])
                else (case poll_run polls status' (Suc attempts) of
                        (r, sleeps) \<Rightarrow> (r, 1000 # sleeps)))
      else (Inr status, []))"
  by pat_completeness auto
termination
  by (relation "measure (\<lambda>(polls, status, attempts). maxAttempts - attempts)") auto

declare poll_run.simps [simp del]

definition runAssistantAnalysis :: "group_io \<Rightarrow> exn + assistant_reply" where
  "runAssistantAnalysis io =
     (case runCreated io of
        None \<Rightarrow> Inl FetchError
      | Some (code, status) \<Rightarrow>
          if code \<noteq> 200 then Inl (HttpError code)
          else (case fst (poll_run (statusPolls io) status 0) of
                  Inl e \<Rightarrow> Inl e
                | Inr status \<Rightarrow>
                    if status \<noteq> ''completed'' then Inl (RunError status)
                    else (case messagesFetched io of
                            MessagesRaised \<Rightarrow> Inl FetchError
                          | NoAssistantMessage \<Rightarrow> Inl NoAnswerError
                          | AssistantText reply \<Rightarrow> Inr reply)))"

section \<open>Description stage\<close>

text \<open>
  The synthesized tags. \<open>image_label\<close> is the template
  \<open>`${productName} - <image> ${n}`\<close> with the Russian word for "image" in lower
  case; \<open>basic_filename\<close> is
  \<open>transliterate(`${productName}-${n}`).toLowerCase().replace(/[^a-z0-9]/g, '-')\<close>.
  The branch for a missing assistant uses the file name whole, the other fallbacks
  cut it with \<open>substring(0, 50)\<close>.
\<close>

definition image_label :: "jsstring \<Rightarrow> nat \<Rightarrow> jsstring" where
  "image_label name n =
     name @ [0x20, 0x2D, 0x20,
             0x438, 0x437, 0x43E, 0x431, 0x440, 0x430, 0x436, 0x435, 0x43D, 0x438, 0x435,
             0x20] @ decimal n"

definition alnum_char :: "jschar \<Rightarrow> bool" where
  "alnum_char c \<longleftrightarrow> (0x61 \<le> c \<and> c \<le> 0x7A) \<or> (0x30 \<le> c \<and> c \<le> 0x39)"

definition basic_filename :: "platform \<Rightarrow> jsstring \<Rightarrow> nat \<Rightarrow> jsstring" where
  "basic_filename pf name n =
     map (\<lambda>c. if alnum_char c then c else 0x2D)
       (toLowerCase pf (transliterate (name @ js ''-'' @ decimal n)))"

definition basic_description :: "platform \<Rightarrow> jsstring \<Rightarrow> nat \<Rightarrow> description" where
  "basic_description pf name n =
     \<lparr>altTag = image_label name n, seoFilename = basic_filename pf name n\<rparr>"

definition fallback_description :: "platform \<Rightarrow> jsstring \<Rightarrow> nat \<Rightarrow> description" where
  "fallback_description pf name n =
     \<lparr>altTag = image_label name n, seoFilename = take 50 (basic_filename pf name n)\<rparr>"

text \<open>
  \<open>parseAssistantBatchResponse\<close>. In the callback of \<open>parsed.results.map\<close>,
  \<open>result.altTag || default\<close> keeps a truthy property; a property that is truthy
  and no string has no \<open>trim\<close> or \<open>split\<close>, and a \<open>null\<close> item has no
  properties: both raise a TypeError, which the \<open>catch\<close> of the function turns
  into \<open>expectedCount\<close> fallback results.
\<close>

definition or_default :: "jsvalue \<Rightarrow> jsstring \<Rightarrow> jsvalue" where
  "or_default v d =
     (case v of
        Falsy \<Rightarrow> Str d
      | Str s \<Rightarrow> if s = [] then Str d else Str s
      | Other \<Rightarrow> Other)"

definition validate_item :: "platform \<Rightarrow> jsstring \<Rightarrow> nat \<Rightarrow> result_item \<Rightarrow> exn + description" where
  "validate_item pf name i item =
     (case item of
        NullItem \<Rightarrow> Inl TypeError
      | Item a f \<Rightarrow>
          (case or_default a (image_label name (i + 1)) of
             Str s \<Rightarrow>
               (case or_default f (js ''product-'' @ decimal (i + 1)) of
                  Str t \<Rightarrow> Inr \<lparr>altTag = validateAltTag pf s name,
                                 seoFilename = validateSeoFilename pf t\<rparr>
                | _ \<Rightarrow> Inl TypeError)
           | _ \<Rightarrow> Inl TypeError))"

fun collect :: "(exn + 'a) list \<Rightarrow> exn + 'a list" where
  "collect [] = Inr []"
| "collect (Inl e # rs) = Inl e"
| "collect (Inr x # rs) = (case collect rs of Inl e \<Rightarrow> Inl e | Inr xs \<Rightarrow> Inr (x # xs))"

definition fallback_results :: "platform \<Rightarrow> jsstring \<Rightarrow> nat \<Rightarrow> description list" where
  "fallback_results pf name expectedCount =
     map (\<lambda>i. fallback_description pf name (i + 1)) [0..<expectedCount]"

definition parseAssistantBatchResponse ::
  "platform \<Rightarrow> assistant_reply \<Rightarrow> nat \<Rightarrow> jsstring \<Rightarrow> description list" where
  "parseAssistantBatchResponse pf response expectedCount name =
     (case response of
        ResultsArray results \<Rightarrow>
          (case collect (map_index (validate_item pf name) results) of
             Inr validated \<Rightarrow> validated
           | Inl e \<Rightarrow> fallback_results pf name expectedCount)
      | JsonSyntaxError \<Rightarrow> fallback_results pf name expectedCount
      | _ \<Rightarrow> fallback_results pf name expectedCount)"

text \<open>
  The \<open>try\<close> block of one sub-batch of \<open>processOpenAIOriginals\<close>: a thread, the
  message with the images, the run, and the parsing of the answer.
\<close>

definition analyse_batch :: "platform \<Rightarrow> group_io \<Rightarrow> jsstring list \<Rightarrow> jsstring \<Rightarrow> exn + description list" where
  "analyse_batch pf io batch name =
     (case threadCreated io of
        None \<Rightarrow> Inl FetchError
      | Some code \<Rightarrow>
          if code \<noteq> 200 then Inl (HttpError code)
          else (case messagePosted io of
                  None \<Rightarrow> Inl FetchError
                | Some code \<Rightarrow>
                    if code \<noteq> 200 then Inl (HttpError code)
                    else (case runAssistantAnalysis io of
                            Inl e \<Rightarrow> Inl e
                          | Inr analysisResult \<Rightarrow>
                              Inr (parseAssistantBatchResponse pf analysisResult (length batch) name))))"

text \<open>
  The body of the loop of \<open>processOpenAIOriginals\<close> for the sub-batch that
  starts at the image number \<open>i\<close> (from 0): what the \<open>try\<close> block parsed, or
  in the \<open>catch\<close> block one fallback result for each image of the sub-batch.
\<close>

definition process_batch ::
  "platform \<Rightarrow> group_io \<Rightarrow> jsstring list \<Rightarrow> jsstring \<Rightarrow> nat \<Rightarrow> description list" where
  "process_batch pf io batch name i =
     (case analyse_batch pf io batch name of
        Inr parsed \<Rightarrow> parsed
      | Inl groupError \<Rightarrow>
          map_index (\<lambda>index url. fallback_description pf name (i + index + 1)) batch)"

text \<open>
  The loop \<open>for (let i = 0; i < imageUrls.length; i += BATCH_SIZE)\<close>. The model
  returns what each iteration pushes onto \<open>allResults\<close>, one list per iteration;
  \<open>allResults\<close> is their concatenation. \<open>groups k\<close> are the replies of the service
  to the sub-batch number \<open>k\<close>, counted from 0.
\<close>

definition BATCH_SIZE :: nat where
  "BATCH_SIZE = 5"

function sub_batches ::
  "platform \<Rightarrow> (nat \<Rightarrow> group_io) \<Rightarrow> jsstring list \<Rightarrow> jsstring \<Rightarrow> nat \<Rightarrow> description list list" where
  "sub_batches pf groups imageUrls name i =
     (if i < length imageUrls
      then process_batch pf (groups (i div BATCH_SIZE)) (take BATCH_SIZE (drop i imageUrls)) name i
           # sub_batches pf groups imageUrls name (i + BATCH_SIZE)
      else [])"
  by pat_completeness auto
termination
  by (relation "measure (\<lambda>(pf, groups, imageUrls, name, i). length imageUrls - i)")
    (auto simp: BATCH_SIZE_def)

declare sub_batches.simps [simp del]

definition processOpenAIOriginals ::
  "platform \<Rightarrow> api_settings option \<Rightarrow> (nat \<Rightarrow> group_io) \<Rightarrow> jsstring list \<Rightarrow> jsstring \<Rightarrow> description list" where
  "processOpenAIOriginals pf settings groups imageUrls name =
     (case settings of
        None \<Rightarrow> map_index (\<lambda>i url. fallback_description pf name (i + 1)) imageUrls
      | Some s \<Rightarrow>
          if openaiAltAssistantId s = []
          then map_index (\<lambda>i url. basic_description pf name (i + 1)) imageUrls
          else concat (sub_batches pf groups imageUrls name 0))"

section \<open>Enhancement stage\<close>

text \<open>
  The replies of the upscaling service for one image: the response code of the
  submission (\<open>None\<close> when the fetch or \<open>JSON.parse\<close> of the prediction
  raises), and for the status request number \<open>k\<close> the status and the output of the
  prediction (\<open>None\<close> when the request raises).
\<close>

record prediction_io =
  predictionCreated :: "nat option"
  predictionPolls :: "nat \<Rightarrow> (string \<times> jsvalue) option"

datatype reason = replicate_failed | timeout | error_message

datatype wait_result = Success jsvalue | Failure reason

text \<open>
  The loop of \<open>waitForReplicateResult\<close>, with \<open>maxAttempts = maxWaitSeconds\<close>. It
  returns the result and the sleeps it made, in milliseconds.
\<close>

function wait_loop :: "(nat \<Rightarrow> (string \<times> jsvalue) option) \<Rightarrow> nat \<Rightarrow> nat \<Rightarrow> wait_result \<times> nat list" where
  "wait_loop polls maxWaitSeconds attempts =
     (if attempts < maxWaitSeconds
      then (case polls attempts of
              None \<Rightarrow> (Failure error_message, [])
            | Some (status, output) \<Rightarrow>
                if status = ''succeeded'' \<and> truthy output then (Success output, [])
                else if status = ''failed'' then (Failure replicate_failed, [])
                else (case wait_loop polls maxWaitSeconds (Suc attempts) of
                        (r, sleeps) \<Rightarrow> (r, 1000 # sleeps)))
      else (Failure timeout, []))"
  by pat_completeness auto
termination
  by (relation "measure (\<lambda>(polls, maxWaitSeconds, attempts). maxWaitSeconds - attempts)") auto

declare wait_loop.simps [simp del]

definition waitForReplicateResult :: "(nat \<Rightarrow> (string \<times> jsvalue) option) \<Rightarrow> nat \<Rightarrow> wait_result \<times> nat list" where
  "waitForReplicateResult polls maxWaitSeconds = wait_loop polls maxWaitSeconds 0"

text \<open>
  The callback of \<open>imageUrls.map\<close> in \<open>processReplicateWithFallback\<close>: its
  \<open>catch\<close> returns the original image with the message of the error.
\<close>

definition pass_through :: "jsstring \<Rightarrow> exn option \<Rightarrow> enhancement" where
  "pass_through imageUrl e =
     \<lparr>original = imageUrl, processed = Str imageUrl, wasEnhanced = False, error = e\<rparr>"

definition enhance_image :: "prediction_io \<Rightarrow> jsstring \<Rightarrow> enhancement" where
  "enhance_image io imageUrl =
     (case predictionCreated io of
        None \<Rightarrow> pass_through imageUrl (Some FetchError)
      | Some code \<Rightarrow>
          if code \<noteq> 201 then pass_through imageUrl (Some (HttpError code))
          else (case fst (waitForReplicateResult (predictionPolls io) 120) of
                  Success outputUrl \<Rightarrow>
                    \<lparr>original = imageUrl, processed = outputUrl, wasEnhanced = True, error = None\<rparr>
                | Failure r \<Rightarrow> pass_through imageUrl (Some ReplicateError)))"

definition processReplicateWithFallback ::
  "api_settings option \<Rightarrow> (nat \<Rightarrow> prediction_io) \<Rightarrow> jsstring list \<Rightarrow> exn + enhancement list" where
  "processReplicateWithFallback settings predictions imageUrls =
     (case settings of
        None \<Rightarrow> Inl SettingsError
      | Some s \<Rightarrow>
          if replicateToken s = []
          then Inr (map (\<lambda>url. pass_through url None) imageUrls)
          else Inr (map_index (\<lambda>index imageUrl. enhance_image (predictions index) imageUrl) imageUrls))"

section \<open>Finishing stage\<close>

text \<open>
  What happens to one image in the configured branch of
  \<open>processUnifiedWebPOptimization\<close>: the callback raises, the conversion to WebP
  fails, or it succeeds and the upload returns \<open>result.data.url\<close> of the hosting
  service, or \<open>null\<close> (a falsy value) when it fails.
\<close>

datatype optimization_io = OptimizationRaised | ConversionFailed | Converted jsvalue

text \<open>
  \<open>analysisResults[index] || {...}\<close>: the default tags are the Russian word for
  "image", capitalised, with the number of the image, and \<open>image-<number>\<close>.
\<close>

definition analysis_or_default :: "description list \<Rightarrow> nat \<Rightarrow> description" where
  "analysis_or_default analysisResults index =
     (if index < length analysisResults then analysisResults ! index
      else \<lparr>altTag = [0x418, 0x437, 0x43E, 0x431, 0x440, 0x430, 0x436, 0x435, 0x43D, 0x438, 0x435,
                       0x20] @ decimal (index + 1),
            seoFilename = js ''image-'' @ decimal (index + 1)\<rparr>)"

definition finished :: "description \<Rightarrow> jsvalue \<Rightarrow> nat \<Rightarrow> pipeline_result" where
  "finished analysis url c =
     \<lparr>altTag = altTag analysis, seoFilename = seoFilename analysis,
      processedImageUrl = url, confidence = c\<rparr>"

definition optimize_image :: "optimization_io \<Rightarrow> description \<Rightarrow> enhancement \<Rightarrow> pipeline_result" where
  "optimize_image io analysis img =
     (case io of
        Converted finalUrl \<Rightarrow>
          if truthy finalUrl then finished analysis finalUrl 8
          else finished analysis (processed img) (if wasEnhanced img then 6 else 4)
      | ConversionFailed \<Rightarrow> finished analysis (processed img) (if wasEnhanced img then 6 else 4)
      | OptimizationRaised \<Rightarrow> finished analysis (processed img) 3)"

definition processUnifiedWebPOptimization ::
  "api_settings option \<Rightarrow> (nat \<Rightarrow> optimization_io) \<Rightarrow> enhancement list \<Rightarrow> description list
    \<Rightarrow> exn + pipeline_result list" where
  "processUnifiedWebPOptimization settings optimizations enhancedImages analysisResults =
     (case settings of
        None \<Rightarrow> Inl SettingsError
      | Some s \<Rightarrow>
          if tinypngKey s = [] \<or> imgbbKey s = []
          then Inr (map_index
                      (\<lambda>index img.
                         finished (analysis_or_default analysisResults index) (processed img)
                           (if wasEnhanced img then 7 else 5))
                      enhancedImages)
          else Inr (map_index
                      (\<lambda>index img.
                         optimize_image (optimizations index)
                           (analysis_or_default analysisResults index) img)
                      enhancedImages))"

section \<open>Orchestrator\<close>

text \<open>
  The external world of one run: the settings, and the replies of the three
  services, by sub-batch and by image.
\<close>

record services =
  apiSettings :: "api_settings option"
  groups :: "nat \<Rightarrow> group_io"
  predictions :: "nat \<Rightarrow> prediction_io"
  optimizations :: "nat \<Rightarrow> optimization_io"

text \<open>The \<open>try\<close> block of \<open>analyzeImageSimple\<close>.\<close>

definition run_stages :: "platform \<Rightarrow> services \<Rightarrow> product \<Rightarrow> exn + pipeline_result list" where
  "run_stages pf sv p =
     (let allImageUrls = combineAllImages (originalImages p) (supplierImages p)
                           (additionalImages p)
      in if length allImageUrls = 0 then Inl NoImagesError
         else
           (let images = imagesToProcess allImageUrls;
                analysisResults = processOpenAIOriginals pf (apiSettings sv) (groups sv) images
                                    (productName p)
            in (case processReplicateWithFallback (apiSettings sv) (predictions sv) images of
                  Inl e \<Rightarrow> Inl e
                | Inr enhancedImages \<Rightarrow>
                    processUnifiedWebPOptimization (apiSettings sv) (optimizations sv)
                      enhancedImages analysisResults)))"

text \<open>
  The \<open>catch\<close> block: one record, whose alt tag is the product name followed by
  the Russian for " - image of the product", with an empty URL and confidence 1.
\<close>

definition last_resort :: "platform \<Rightarrow> product \<Rightarrow> pipeline_result" where
  "last_resort pf p =
     \<lparr>altTag = productName p
                @ [0x20, 0x2D, 0x20,
                   0x438, 0x437, 0x43E, 0x431, 0x440, 0x430, 0x436, 0x435, 0x43D, 0x438, 0x435,
                   0x20, 0x442, 0x43E, 0x432, 0x430, 0x440, 0x430],
      seoFilename = js ''product-'' @ decimal (dateNow pf),
      processedImageUrl = Str [],
      confidence = 1\<rparr>"

definition analyzeImageSimple :: "platform \<Rightarrow> services \<Rightarrow> product \<Rightarrow> pipeline_result list" where
  "analyzeImageSimple pf sv p =
     (case run_stages pf sv p of
        Inr finalResults \<Rightarrow> finalResults
      | Inl e \<Rightarrow> [last_resort pf p])"

section \<open>Properties of the transliteration\<close>

lemma map_of_None_if_keys:
  assumes "list_all (\<lambda>(k, v). P k) xs" and "\<not> P c"
  shows "map_of xs c = None"
  using assms by (induction xs) auto

lemma rules_keys_cyrillic: "list_all (\<lambda>(k, v). 0x400 \<le> k) rules"
  by (simp add: rules_def)

lemma rules_values_ascii: "list_all (\<lambda>(k, v). list_all (\<lambda>c. c < 0x80) v) rules"
  by (simp add: rules_def js_def)

lemma ascii_not_key:
  assumes "c < (0x80 :: jschar)"
  shows "map_of rules c = None"
proof (rule map_of_None_if_keys [OF rules_keys_cyrillic])
  from assms show "\<not> 0x400 \<le> c"
    by (simp add: not_le) (erule less_trans, simp)
qed

lemma rules_values_not_keys:
  "list_all (\<lambda>(k, v). list_all (\<lambda>c. map_of rules c = None) v) rules"
  using rules_values_ascii
  by (rule list.pred_mono_strong) (auto simp: list_all_iff ascii_not_key)

lemma translit_char_fixed:
  assumes "map_of rules c = None"
  shows "translit_char c = [c]"
  using assms by (simp add: translit_char_def)

lemma transliterate_fixed:
  assumes "list_all (\<lambda>c. map_of rules c = None) v"
  shows "transliterate v = v"
  using assms
  by (induction v) (simp_all add: transliterate_def translit_char_fixed)

lemma transliterate_translit_char:
  "transliterate (translit_char c) = translit_char c"
proof (cases "map_of rules c")
  case None
  then show ?thesis
    by (simp add: transliterate_def translit_char_def)
next
  case (Some v)
  show ?thesis
  proof (cases "v = []")
    case True
    with Some show ?thesis
      by (simp add: transliterate_def translit_char_def)
  next
    case False
    from Some have "(c, v) \<in> set rules"
      by (rule map_of_SomeD)
    with rules_values_not_keys have "list_all (\<lambda>c. map_of rules c = None) v"
      by (auto simp: list_all_iff)
    then have "transliterate v = v"
      by (rule transliterate_fixed)
    with Some False show ?thesis
      by (simp add: translit_char_def)
  qed
qed

lemma transliterate_append:
  "transliterate (xs @ ys) = transliterate xs @ transliterate ys"
  by (simp add: transliterate_def)

text \<open>
  C10: transliterating twice is transliterating once, and the reason the claim gives
  holds of the table: no code unit of any value of the table is a key of the table.
\<close>

theorem transliterate_idempotent:
  "transliterate (transliterate s) = transliterate s
   \<and> list_all (\<lambda>(k, v). list_all (\<lambda>c. map_of rules c = None) v) rules"
proof
  show "transliterate (transliterate s) = transliterate s"
  proof (induction s)
    case Nil
    show ?case by (simp add: transliterate_def)
  next
    case (Cons c s)
    have "transliterate (c # s) = translit_char c @ transliterate s"
      by (simp add: transliterate_def)
    with Cons show ?case
      by (simp add: transliterate_append transliterate_translit_char)
  qed
  show "list_all (\<lambda>(k, v). list_all (\<lambda>c. map_of rules c = None) v) rules"
    by (rule rules_values_not_keys)
qed

section \<open>Properties of the file name validator\<close>


lemma replace_runs_from_all:
  assumes "list_all Q r" and "list_all Q s"
  shows "list_all Q (replace_runs_from b X r s)"
  using assms by (induction s arbitrary: b) auto

lemma replace_runs_all:
  assumes "list_all Q r" and "list_all Q s"
  shows "list_all Q (replace_runs X r s)"
  using assms by (simp add: replace_runs_def replace_runs_from_all)

lemma strip_hyphens_all:
  assumes "list_all Q s"
  shows "list_all Q (strip_hyphens s)"
proof -
  have "set (strip_hyphens s) \<subseteq> set s"
    by (auto simp: strip_hyphens_def dest!: set_dropWhileD)
  with assms show ?thesis
    by (auto simp: list_all_iff)
qed

lemma strip_ends_hd:
  assumes "rev (dropWhile P (rev (dropWhile P s))) \<noteq> []"
  shows "\<not> P (hd (rev (dropWhile P (rev (dropWhile P s)))))"
proof -
  let ?t = "dropWhile P s"
  have t: "?t \<noteq> []"
  proof
    assume "?t = []"
    with assms show False by simp
  qed
  obtain ys zs where split: "rev ?t = ys @ zs" and zs: "zs = dropWhile P (rev ?t)"
    by (metis takeWhile_dropWhile_id)
  from assms zs have "zs \<noteq> []" by simp
  from split have "?t = rev zs @ rev ys"
    by (metis rev_append rev_rev_ident)
  with \<open>zs \<noteq> []\<close> have "hd (rev zs) = hd ?t"
    by (metis hd_append2 rev_is_Nil_conv)
  moreover from t have "\<not> P (hd ?t)"
    by (rule hd_dropWhile)
  ultimately show ?thesis
    using zs by simp
qed

lemma strip_ends_last:
  assumes "rev (dropWhile P (rev (dropWhile P s))) \<noteq> []"
  shows "\<not> P (last (rev (dropWhile P (rev (dropWhile P s)))))"
proof -
  from assms have "dropWhile P (rev (dropWhile P s)) \<noteq> []" by simp
  then have "\<not> P (hd (dropWhile P (rev (dropWhile P s))))"
    by (rule hd_dropWhile)
  with assms show ?thesis
    by (simp add: last_rev)
qed

lemma digit_filename_char: "filename_char (digit d)"
proof -
  have "d mod 10 \<in> {0, 1, 2, 3, 4, 5, 6, 7, 8, 9}"
    by simp presburger
  then show ?thesis
    by (auto simp: digit_def js_def filename_char_def)
qed

lemma digit_not_hyphen: "\<not> is_hyphen (digit d)"
proof -
  have "d mod 10 \<in> {0, 1, 2, 3, 4, 5, 6, 7, 8, 9}"
    by simp presburger
  then show ?thesis
    by (auto simp: digit_def js_def is_hyphen_def)
qed

lemma decimal_not_empty: "decimal n \<noteq> []"
  by (subst decimal.simps) simp

lemma decimal_all_digits: "list_all filename_char (decimal n)"
proof (induction n rule: decimal.induct)
  case (1 n)
  show ?case
  proof (cases "n < 10")
    case True
    then show ?thesis
      by (subst decimal.simps) (simp add: digit_filename_char)
  next
    case False
    with 1 show ?thesis
      by (subst decimal.simps) (simp add: digit_filename_char)
  qed
qed

lemma decimal_last: "last (decimal n) = digit n"
  by (subst decimal.simps) (simp add: digit_def)

lemma decimal_length: "n < 10 ^ k \<Longrightarrow> 0 < k \<Longrightarrow> length (decimal n) \<le> k"
proof (induction n arbitrary: k rule: decimal.induct)
  case (1 n)
  show ?case
  proof (cases "n < 10")
    case True
    with 1(3) show ?thesis
      by (subst decimal.simps) simp
  next
    case False
    obtain j where k: "k = Suc j"
      using 1(3) by (cases k) auto
    from False 1(2) k have "0 < j"
      by (cases j) auto
    moreover from 1(2) k have "n div 10 < 10 ^ j"
      by (simp add: less_mult_imp_div_less mult.commute)
    ultimately have "length (decimal (n div 10)) \<le> j"
      using 1(1) [OF False] by simp
    with False k show ?thesis
      by (subst decimal.simps) simp
  qed
qed


lemma clean_filename_chars: "list_all filename_char (clean_filename pf name)"
proof -
  have "filename_char 0x2D"
    by (simp add: filename_char_def)
  then have "list_all filename_char (map (\<lambda>c. if filename_char c then c else 0x2D) (toLowerCase pf name))"
    by (induction "toLowerCase pf name") (auto simp: list_all_iff)
  moreover have "list_all filename_char (js ''-'')"
    by (simp add: js_def filename_char_def)
  ultimately show ?thesis
    unfolding clean_filename_def
    by (intro strip_hyphens_all replace_runs_all)
qed

lemma clean_filename_ends:
  assumes "clean_filename pf name \<noteq> []"
  shows "\<not> is_hyphen (hd (clean_filename pf name))"
    and "\<not> is_hyphen (last (clean_filename pf name))"
  using assms strip_ends_hd [of is_hyphen] strip_ends_last [of is_hyphen]
  unfolding clean_filename_def strip_hyphens_def by blast+

lemma fallback_filename_chars: "list_all filename_char (fallback_filename pf)"
proof -
  have "list_all filename_char (js ''product-image-'')"
    by (simp add: js_def filename_char_def)
  then show ?thesis
    by (simp add: fallback_filename_def decimal_all_digits)
qed

lemma fallback_filename_ends:
  "fallback_filename pf \<noteq> []"
  "\<not> is_hyphen (hd (fallback_filename pf))"
  "\<not> is_hyphen (last (fallback_filename pf))"
  by (simp_all add: fallback_filename_def js_def is_hyphen_def decimal_not_empty
      decimal_last digit_not_hyphen [unfolded is_hyphen_def])

lemma fallback_filename_length:
  assumes "dateNow pf < 10 ^ 21"
  shows "length (fallback_filename pf) \<le> 80"
proof -
  from assms have "length (decimal (dateNow pf)) \<le> 21"
    by (rule decimal_length) simp
  then show ?thesis
    by (simp add: fallback_filename_def js_def)
qed

lemma split_where_not_empty: "split_where sep s \<noteq> []"
  by (induction s) (auto split: list.splits)

lemma split_where_no_separator:
  assumes "list_all (\<lambda>c. \<not> sep c) s"
  shows "split_where sep s = [s]"
  using assms by (induction s) auto

lemma split_where_append:
  assumes "sep d"
  shows "split_where sep (xs @ d # ys) = split_where sep xs @ split_where sep ys"
proof (induction xs)
  case Nil
  from assms show ?case by simp
next
  case (Cons c xs)
  obtain p ps where "split_where sep xs = p # ps"
    using split_where_not_empty [of sep xs] by (cases "split_where sep xs") auto
  with Cons show ?case by simp
qed

lemma join_with_Cons: "join_with d ((c # p) # ps) = c # join_with d (p # ps)"
  by (cases ps) simp_all

lemma join_split: "join_with [d] (split_where (\<lambda>c. c = d) s) = s"
proof (induction s)
  case Nil
  show ?case by simp
next
  case (Cons c s)
  obtain p ps where ps: "split_where (\<lambda>c. c = d) s = p # ps"
    using split_where_not_empty [of _ s] by (cases "split_where (\<lambda>c. c = d) s") auto
  with Cons show ?case
    by (auto simp: join_with_Cons)
qed

lemma strip_extension_last_part:
  assumes "0x2E \<notin> set ext"
  shows "strip_extension (stem @ 0x2E # ext) = stem"
proof -
  let ?dot = "\<lambda>c :: jschar. c = 0x2E"
  from assms have "split_where ?dot ext = [ext]"
    by (intro split_where_no_separator) (auto simp: list_all_iff)
  then have parts: "split_where ?dot (stem @ 0x2E # ext) = split_where ?dot stem @ [ext]"
    by (simp add: split_where_append)
  have "js ''.'' = [0x2E]"
    by (simp add: js_def)
  with parts split_where_not_empty [of ?dot stem] show ?thesis
    by (simp add: strip_extension_def join_split)
qed

lemma validateSeoFilename_cases:
  "validateSeoFilename pf filename = fallback_filename pf
   \<or> (clean_filename pf (strip_extension filename) \<noteq> []
      \<and> validateSeoFilename pf filename
          = take FILENAME_MAX_LENGTH (clean_filename pf (strip_extension filename)))"
  by (auto simp: validateSeoFilename_def Let_def)

text \<open>
  C7, as amended: for every platform whose clock reading is below \<open>10^21\<close> and
  every input, the result of \<open>validateSeoFilename\<close> is not empty, consists of
  \<open>[a-z0-9-]\<close> only, does not start with a hyphen and has at most 80 code units
  (\<open>FILENAME_MAX_LENGTH\<close>); it does not end with a hyphen when the cleaned name
  has at most 80 code units; and the part after the last dot is dropped before
  cleaning, so that the result does not depend on it.
\<close>

theorem validateSeoFilename_shape:
  assumes "dateNow pf < 10 ^ 21"
  shows "validateSeoFilename pf filename \<noteq> []
    \<and> list_all filename_char (validateSeoFilename pf filename)
    \<and> \<not> is_hyphen (hd (validateSeoFilename pf filename))
    \<and> length (validateSeoFilename pf filename) \<le> 80
    \<and> (length (clean_filename pf (strip_extension filename)) \<le> 80
         \<longrightarrow> \<not> is_hyphen (last (validateSeoFilename pf filename)))
    \<and> (0x2E \<notin> set ext
         \<longrightarrow> strip_extension (stem @ 0x2E # ext) = stem
           \<and> validateSeoFilename pf (stem @ 0x2E # ext) = validateSeoFilename pf (stem @ [0x2E]))"
proof -
  let ?r = "validateSeoFilename pf filename"
  let ?c = "clean_filename pf (strip_extension filename)"
  have ext: "validateSeoFilename pf (stem @ 0x2E # ext) = validateSeoFilename pf (stem @ [0x2E])"
    if "0x2E \<notin> set ext"
    using that strip_extension_last_part [of ext stem] strip_extension_last_part [of "[]" stem]
    by (simp add: validateSeoFilename_def)
  from validateSeoFilename_cases [of pf filename]
  show ?thesis
  proof
    assume r: "?r = fallback_filename pf"
    with assms show ?thesis
      using fallback_filename_ends [of pf] fallback_filename_chars [of pf]
        fallback_filename_length [of pf] ext strip_extension_last_part [of ext stem]
      by simp
  next
    assume "?c \<noteq> [] \<and> ?r = take FILENAME_MAX_LENGTH ?c"
    then have c: "?c \<noteq> []" and r: "?r = take 80 ?c"
      by (simp_all add: FILENAME_MAX_LENGTH_def)
    from c have "?r \<noteq> []" and "hd ?r = hd ?c"
      by (simp_all add: r)
    moreover have "list_all filename_char ?r"
      using clean_filename_chars [of pf "strip_extension filename"]
      by (auto simp: r list_all_iff dest: in_set_takeD)
    moreover have "length ?r \<le> 80"
      by (simp add: r)
    moreover have "\<not> is_hyphen (last ?r)" if "length ?c \<le> 80"
      using that clean_filename_ends(2) [OF c] by (simp add: r)
    ultimately show ?thesis
      using clean_filename_ends(1) [OF c] ext strip_extension_last_part [of ext stem]
      by simp
  qed
qed

text \<open>"Tovar #1.jpg" with the first word in Cyrillic.\<close>

theorem validateSeoFilename_shape_witness:
  "dateNow (basic_platform 17) < 10 ^ 21
   \<and> validateSeoFilename (basic_platform 17) ([0x422, 0x43E, 0x432, 0x430, 0x440] @ js '' #1.jpg'')
       = js ''1''
   \<and> list_all filename_char (js ''1'')
   \<and> \<not> is_hyphen (hd (js ''1''))
   \<and> \<not> is_hyphen (last (js ''1''))
   \<and> strip_extension ([0x422, 0x43E, 0x432, 0x430, 0x440] @ js '' #1'' @ 0x2E # js ''jpg'')
       = [0x422, 0x43E, 0x432, 0x430, 0x440] @ js '' #1''"
proof -
  let ?pf = "basic_platform 17"
  let ?f = "[0x422, 0x43E, 0x432, 0x430, 0x440] @ js '' #1.jpg''"
  have hyp: "dateNow ?pf < 10 ^ 21"
    by (simp add: basic_platform_def)
  have val: "validateSeoFilename ?pf ?f = js ''1''"
    by code_simp
  have cl: "length (clean_filename ?pf (strip_extension ?f)) \<le> 80"
    by code_simp
  have dot: "0x2E \<notin> set (js ''jpg'')"
    by (simp add: js_def)
  from validateSeoFilename_shape [OF hyp, of ?f "js ''jpg''" "[0x422, 0x43E, 0x432, 0x430, 0x440] @ js '' #1''"]
  show ?thesis
    using hyp val cl dot by simp
qed

text \<open>
  C7 as stated fails: a name of 61 letters is returned whole, longer than 60, and
  a name cut at 80 code units can end with a hyphen.
\<close>

theorem validateSeoFilename_counterexample:
  "\<not> length (validateSeoFilename (basic_platform 17) (replicate 61 0x61)) \<le> 60
   \<and> is_hyphen (last (validateSeoFilename (basic_platform 17) (replicate 79 0x61 @ js ''-b.png'')))"
  by code_simp

section \<open>Properties of the alt tag validator\<close>

text \<open>
  C8 on the example of the specification: the input is "Foto tovara klassnoe" in
  Cyrillic, capitalised, with two leading spaces, three spaces before the last word
  and two trailing spaces; the product name is "Tovar". The white space is
  collapsed, but the stop word "Foto" stays: \<open>\b\<close> needs an ASCII word character
  on one side, and a Cyrillic letter at the start of the string has none.
\<close>

theorem validateAltTag_keeps_stop_word:
  "validateAltTag (basic_platform 0)
     [0x20, 0x20, 0x424, 0x43E, 0x442, 0x43E, 0x20, 0x442, 0x43E, 0x432, 0x430, 0x440, 0x430,
      0x20, 0x20, 0x20, 0x43A, 0x43B, 0x430, 0x441, 0x441, 0x43D, 0x43E, 0x435, 0x20, 0x20]
     [0x422, 0x43E, 0x432, 0x430, 0x440]
   = [0x424, 0x43E, 0x442, 0x43E, 0x20, 0x442, 0x43E, 0x432, 0x430, 0x440, 0x430,
      0x20, 0x43A, 0x43B, 0x430, 0x441, 0x441, 0x43D, 0x43E, 0x435]"
  by code_simp

section \<open>Properties of the polling loops\<close>

lemma poll_run_sleeps:
  assumes "attempts < maxAttempts"
  shows "length (snd (poll_run polls status attempts)) \<le> maxAttempts - attempts
         \<and> list_all (\<lambda>ms. ms = 1000) (snd (poll_run polls status attempts))"
  using assms
proof (induction polls status attempts rule: poll_run.induct)
  case (1 polls status attempts)
  show ?case
  proof (cases "status = ''queued'' \<or> status = ''in_progress''")
    case False
    then show ?thesis
      by (subst (1 2) poll_run.simps) simp
  next
    case pending: True
    show ?thesis
    proof (cases "polls attempts")
      case None
      with pending "1.prems" show ?thesis
        by (subst (1 2) poll_run.simps) simp
    next
      case (Some status')
      show ?thesis
      proof (cases "maxAttempts \<le> Suc attempts")
        case True
        with pending Some "1.prems" show ?thesis
          by (subst (1 2) poll_run.simps) simp
      next
        case False
        with "1.IH" [OF pending Some] have
          "length (snd (poll_run polls status' (Suc attempts))) \<le> maxAttempts - Suc attempts"
          "list_all (\<lambda>ms. ms = 1000) (snd (poll_run polls status' (Suc attempts)))"
          by simp_all
        with pending Some False show ?thesis
          by (subst (1 2) poll_run.simps) (simp add: split_beta)
      qed
    qed
  qed
qed

lemma poll_run_reads:
  assumes "\<forall>k. attempts \<le> k \<and> k < maxAttempts \<longrightarrow> polls k = polls' k"
    and "attempts < maxAttempts"
  shows "poll_run polls status attempts = poll_run polls' status attempts"
  using assms
proof (induction polls status attempts rule: poll_run.induct)
  case (1 polls status attempts)
  from "1.prems" have same: "polls attempts = polls' attempts"
    by simp
  show ?case
  proof (cases "(status = ''queued'' \<or> status = ''in_progress'')
                \<and> polls attempts \<noteq> None \<and> \<not> maxAttempts \<le> Suc attempts")
    case False
    with same show ?thesis
      by (subst (1 2) poll_run.simps) (auto split: option.splits)
  next
    case True
    then obtain status' where st: "polls attempts = Some status'"
      by auto
    from True "1.prems" have
      "poll_run polls status' (Suc attempts) = poll_run polls' status' (Suc attempts)"
      by (intro "1.IH" [OF _ st]) auto
    with True st same show ?thesis
      by (subst (1 2) poll_run.simps) simp
  qed
qed

lemma poll_run_timeout:
  assumes "status = ''queued'' \<or> status = ''in_progress''"
    and "\<forall>k. attempts \<le> k \<and> k < maxAttempts \<longrightarrow>
           (case polls k of
              Some s \<Rightarrow> Suc k = maxAttempts \<or> s = ''queued'' \<or> s = ''in_progress''
            | None \<Rightarrow> False)"
    and "attempts < maxAttempts"
  shows "poll_run polls status attempts
         = (Inl TimeoutError, replicate (maxAttempts - attempts) 1000)"
  using assms
proof (induction polls status attempts rule: poll_run.induct)
  case (1 polls status attempts)
  from "1.prems" obtain status' where st: "polls attempts = Some status'"
    and st': "Suc attempts = maxAttempts \<or> status' = ''queued'' \<or> status' = ''in_progress''"
    by (cases "polls attempts") (auto dest!: spec [of _ attempts])
  show ?case
  proof (cases "maxAttempts \<le> Suc attempts")
    case True
    with "1.prems" have "maxAttempts - attempts = Suc 0"
      by simp
    with True st "1.prems"(1) show ?thesis
      by (subst poll_run.simps) simp
  next
    case False
    with st' have pending': "status' = ''queued'' \<or> status' = ''in_progress''"
      by simp
    from False "1.prems" have
      "poll_run polls status' (Suc attempts)
       = (Inl TimeoutError, replicate (maxAttempts - Suc attempts) 1000)"
      by (intro "1.IH" [OF "1.prems"(1) st False pending']) auto
    moreover from False have "maxAttempts - attempts = Suc (maxAttempts - Suc attempts)"
      by simp
    ultimately show ?thesis
      using False st "1.prems"(1) by (subst poll_run.simps) simp
  qed
qed



lemma wait_loop_sleeps:
  "length (snd (wait_loop polls n attempts)) \<le> n - attempts
   \<and> list_all (\<lambda>ms. ms = 1000) (snd (wait_loop polls n attempts))"
proof (induction polls n attempts rule: wait_loop.induct)
  case (1 polls n attempts)
  show ?case
  proof (cases "attempts < n")
    case False
    then show ?thesis
      by (subst (1 2) wait_loop.simps) simp
  next
    case running: True
    show ?thesis
    proof (cases "polls attempts")
      case None
      with running show ?thesis
        by (subst (1 2) wait_loop.simps) simp
    next
      case (Some reply)
      obtain status out where reply: "reply = (status, out)"
        by (cases reply)
      show ?thesis
      proof (cases "(status = ''succeeded'' \<and> truthy out) \<or> status = ''failed''")
        case True
        with running Some reply show ?thesis
          by (subst (1 2) wait_loop.simps) auto
      next
        case False
        with "1.IH" [OF running Some [unfolded reply] refl] have
          "length (snd (wait_loop polls n (Suc attempts))) \<le> n - Suc attempts"
          "list_all (\<lambda>ms. ms = 1000) (snd (wait_loop polls n (Suc attempts)))"
          by simp_all
        with running Some reply False show ?thesis
          by (subst (1 2) wait_loop.simps) (auto simp: split_beta)
      qed
    qed
  qed
qed

lemma wait_loop_reads:
  assumes "\<forall>k. attempts \<le> k \<and> k < n \<longrightarrow> polls k = polls' k"
  shows "wait_loop polls n attempts = wait_loop polls' n attempts"
  using assms
proof (induction polls n attempts rule: wait_loop.induct)
  case (1 polls n attempts)
  show ?case
  proof (cases "attempts < n")
    case False
    then show ?thesis
      by (subst (1 2) wait_loop.simps) simp
  next
    case running: True
    with "1.prems" have same: "polls attempts = polls' attempts"
      by simp
    show ?thesis
    proof (cases "polls attempts")
      case None
      with running same show ?thesis
        by (subst (1 2) wait_loop.simps) simp
    next
      case (Some reply)
      obtain status out where reply: "reply = (status, out)"
        by (cases reply)
      show ?thesis
      proof (cases "(status = ''succeeded'' \<and> truthy out) \<or> status = ''failed''")
        case True
        with running Some reply same show ?thesis
          by (subst (1 2) wait_loop.simps) auto
      next
        case False
        with "1.prems" have
          "wait_loop polls n (Suc attempts) = wait_loop polls' n (Suc attempts)"
          by (intro "1.IH" [OF running Some [unfolded reply] refl]) auto
        with running Some reply same False show ?thesis
          by (subst (1 2) wait_loop.simps) auto
      qed
    qed
  qed
qed

lemma wait_loop_timeout:
  assumes "\<forall>k. attempts \<le> k \<and> k < n \<longrightarrow>
             (case polls k of
                Some (status, out) \<Rightarrow>
                  \<not> (status = ''succeeded'' \<and> truthy out) \<and> status \<noteq> ''failed''
              | None \<Rightarrow> False)"
  shows "wait_loop polls n attempts = (Failure timeout, replicate (n - attempts) 1000)"
  using assms
proof (induction polls n attempts rule: wait_loop.induct)
  case (1 polls n attempts)
  show ?case
  proof (cases "attempts < n")
    case False
    then show ?thesis
      by (subst wait_loop.simps) simp
  next
    case running: True
    with "1.prems" obtain status out where reply: "polls attempts = Some (status, out)"
      and going: "\<not> (status = ''succeeded'' \<and> truthy out)" "status \<noteq> ''failed''"
      by (cases "polls attempts") (auto dest!: spec [of _ attempts])
    from "1.prems" going have
      "wait_loop polls n (Suc attempts) = (Failure timeout, replicate (n - Suc attempts) 1000)"
      by (intro "1.IH" [OF running reply refl]) auto
    moreover from running have "n - attempts = Suc (n - Suc attempts)"
      by simp
    ultimately show ?thesis
      using running reply going by (subst wait_loop.simps) auto
  qed
qed

text \<open>
  C9: both polling loops stop. The run of the assistant is asked for its status at
  most 30 times (\<open>maxAttempts\<close>), a prediction at most \<open>maxWaitSeconds\<close> times:
  the loops make at most that many sleeps, each of 1000 ms, their result does not
  depend on any later reply, and when no reply ends the loop before the ceiling the
  result is a timeout, whatever the service answers.
\<close>

theorem polling_loops_bounded:
  "length (snd (poll_run polls status 0)) \<le> 30
   \<and> list_all (\<lambda>ms. ms = 1000) (snd (poll_run polls status 0))
   \<and> (list_all (\<lambda>k. polls k = polls' k) [0..<30]
        \<longrightarrow> poll_run polls status 0 = poll_run polls' status 0)
   \<and> ((status = ''queued'' \<or> status = ''in_progress'')
        \<and> list_all (\<lambda>k. case polls k of
                            Some s \<Rightarrow> k = 29 \<or> s = ''queued'' \<or> s = ''in_progress''
                          | None \<Rightarrow> False) [0..<30]
        \<longrightarrow> poll_run polls status 0 = (Inl TimeoutError, replicate 30 1000))
   \<and> length (snd (waitForReplicateResult rpolls n)) \<le> n
   \<and> list_all (\<lambda>ms. ms = 1000) (snd (waitForReplicateResult rpolls n))
   \<and> (list_all (\<lambda>k. rpolls k = rpolls' k) [0..<n]
        \<longrightarrow> waitForReplicateResult rpolls n = waitForReplicateResult rpolls' n)
   \<and> (list_all (\<lambda>k. case rpolls k of
                         Some (st, out) \<Rightarrow>
                           \<not> (st = ''succeeded'' \<and> truthy out) \<and> st \<noteq> ''failed''
                       | None \<Rightarrow> False) [0..<n]
        \<longrightarrow> waitForReplicateResult rpolls n = (Failure timeout, replicate n 1000))"
proof -
  have m: "maxAttempts = 30" "0 < maxAttempts"
    by (simp_all add: maxAttempts_def)
  have "length (snd (poll_run polls status 0)) \<le> 30"
    "list_all (\<lambda>ms. ms = 1000) (snd (poll_run polls status 0))"
    using poll_run_sleeps [OF m(2), of polls status] by (simp_all add: m(1))
  moreover have "poll_run polls status 0 = poll_run polls' status 0"
    if "list_all (\<lambda>k. polls k = polls' k) [0..<30]"
    using that by (intro poll_run_reads) (auto simp: list_all_iff m)
  moreover have "poll_run polls status 0 = (Inl TimeoutError, replicate 30 1000)"
    if "status = ''queued'' \<or> status = ''in_progress''"
      and "list_all (\<lambda>k. case polls k of
                            Some s \<Rightarrow> k = 29 \<or> s = ''queued'' \<or> s = ''in_progress''
                          | None \<Rightarrow> False) [0..<30]"
  proof -
    have "\<forall>k. 0 \<le> k \<and> k < maxAttempts \<longrightarrow>
           (case polls k of
              Some s \<Rightarrow> Suc k = maxAttempts \<or> s = ''queued'' \<or> s = ''in_progress''
            | None \<Rightarrow> False)"
    proof (intro allI impI)
      fix k
      assume "0 \<le> k \<and> k < maxAttempts"
      with that(2) have "case polls k of
                           Some s \<Rightarrow> k = 29 \<or> s = ''queued'' \<or> s = ''in_progress''
                         | None \<Rightarrow> False"
        by (simp add: list_all_iff m)
      then show "case polls k of
                   Some s \<Rightarrow> Suc k = maxAttempts \<or> s = ''queued'' \<or> s = ''in_progress''
                 | None \<Rightarrow> False"
        by (cases "polls k") (auto simp: m)
    qed
    from poll_run_timeout [OF that(1) this m(2)] show ?thesis
      by (simp add: m)
  qed
  moreover have "length (snd (waitForReplicateResult rpolls n)) \<le> n"
    "list_all (\<lambda>ms. ms = 1000) (snd (waitForReplicateResult rpolls n))"
    using wait_loop_sleeps [of rpolls n 0] by (simp_all add: waitForReplicateResult_def)
  moreover have "waitForReplicateResult rpolls n = waitForReplicateResult rpolls' n"
    if "list_all (\<lambda>k. rpolls k = rpolls' k) [0..<n]"
    unfolding waitForReplicateResult_def
    using that by (intro wait_loop_reads) (auto simp: list_all_iff)
  moreover have "waitForReplicateResult rpolls n = (Failure timeout, replicate n 1000)"
    if "list_all (\<lambda>k. case rpolls k of
                         Some (st, out) \<Rightarrow>
                           \<not> (st = ''succeeded'' \<and> truthy out) \<and> st \<noteq> ''failed''
                       | None \<Rightarrow> False) [0..<n]"
  proof -
    from that have "\<forall>k. 0 \<le> k \<and> k < n \<longrightarrow>
             (case rpolls k of
                Some (status, out) \<Rightarrow>
                  \<not> (status = ''succeeded'' \<and> truthy out) \<and> status \<noteq> ''failed''
              | None \<Rightarrow> False)"
      by (auto simp: list_all_iff)
    from wait_loop_timeout [OF this] show ?thesis
      by (simp add: waitForReplicateResult_def)
  qed
  ultimately show ?thesis
    by blast
qed


theorem polling_loops_bounded_witness:
  "list_all (\<lambda>k. case Some ''queued'' of
                     Some s \<Rightarrow> k = (29::nat) \<or> s = ''queued'' \<or> s = ''in_progress''
                   | None \<Rightarrow> False) [0..<30]
   \<and> poll_run (\<lambda>k. Some ''queued'') ''queued'' 0 = (Inl TimeoutError, replicate 30 1000)
   \<and> list_all (\<lambda>k::nat. case Some (''processing'', Falsy) of
                     Some (st, out) \<Rightarrow>
                       \<not> (st = ''succeeded'' \<and> truthy out) \<and> st \<noteq> ''failed''
                   | None \<Rightarrow> False) [0..<3]
   \<and> waitForReplicateResult (\<lambda>k. Some (''processing'', Falsy)) 3
       = (Failure timeout, replicate 3 1000)"
proof -
  have h1: "list_all (\<lambda>k. case Some ''queued'' of
                     Some s \<Rightarrow> k = (29::nat) \<or> s = ''queued'' \<or> s = ''in_progress''
                   | None \<Rightarrow> False) [0..<30]"
    by (simp add: list_all_iff)
  have h2: "list_all (\<lambda>k::nat. case Some (''processing'', Falsy) of
                     Some (st, out) \<Rightarrow>
                       \<not> (st = ''succeeded'' \<and> truthy out) \<and> st \<noteq> ''failed''
                   | None \<Rightarrow> False) [0..<3]"
    by (simp add: list_all_iff)
  from polling_loops_bounded [where polls = "\<lambda>k. Some ''queued''" and status = "''queued''"
      and polls' = "\<lambda>k. Some ''queued''" and rpolls = "\<lambda>k. Some (''processing'', Falsy)"
      and rpolls' = "\<lambda>k. Some (''processing'', Falsy)" and n = 3] h1 h2
  show ?thesis
    by blast
qed

section \<open>Properties of the enhancement stage\<close>

lemma length_map_index: "length (map_index f xs) = length xs"
  by (simp add: map_index_def)

lemma nth_map_index:
  assumes "i < length xs"
  shows "map_index f xs ! i = f i (xs ! i)"
  using assms by (simp add: map_index_def nth_enumerate_eq)

lemma map_map_index: "map g (map_index f xs) = map_index (\<lambda>i x. g (f i x)) xs"
  by (simp add: map_index_def split_def)

lemma map_index_const: "map_index (\<lambda>i x. g x) xs = map g xs"
  by (rule nth_equalityI) (simp_all add: length_map_index nth_map_index)


lemma enhance_image_original: "original (enhance_image io url) = url"
  by (simp add: enhance_image_def pass_through_def split: option.splits wait_result.splits)






section \<open>Properties of the finishing stage\<close>

lemma unconfigured_finish:
  assumes "tinypngKey s = [] \<or> imgbbKey s = []"
  shows "processUnifiedWebPOptimization (Some s) opts enhancedImages analysisResults
         = Inr (map_index
                  (\<lambda>index img.
                     finished (analysis_or_default analysisResults index) (processed img)
                       (if wasEnhanced img then 7 else 5))
                  enhancedImages)"
  using assms by (auto simp: processUnifiedWebPOptimization_def)

text \<open>
  C2, as amended: without a TinyPNG key or without an ImgBB key the finishing stage
  returns one result per image whose URL is the URL of the enhancement stage, with
  confidence 7 for an enhanced image and 5 for an image that was not enhanced.
\<close>

theorem processUnifiedWebPOptimization_unconfigured:
  assumes "tinypngKey s = [] \<or> imgbbKey s = []"
  shows "\<exists>rs. processUnifiedWebPOptimization (Some s) opts enhancedImages analysisResults = Inr rs
           \<and> map processedImageUrl rs = map processed enhancedImages
           \<and> map confidence rs = map (\<lambda>img. if wasEnhanced img then 7 else 5) enhancedImages"
proof -
  have "map processedImageUrl
          (map_index (\<lambda>index img.
                     finished (analysis_or_default analysisResults index) (processed img)
                       (if wasEnhanced img then 7 else 5)) enhancedImages)
        = map processed enhancedImages"
    by (simp add: map_map_index finished_def map_index_const)
  moreover have "map confidence
          (map_index (\<lambda>index img.
                     finished (analysis_or_default analysisResults index) (processed img)
                       (if wasEnhanced img then 7 else 5)) enhancedImages)
        = map (\<lambda>img. if wasEnhanced img then 7 else 5) enhancedImages"
    by (simp add: map_map_index finished_def map_index_const)
  ultimately show ?thesis
    using unconfigured_finish [OF assms] by simp
qed

theorem processUnifiedWebPOptimization_unconfigured_witness:
  "(tinypngKey \<lparr>openaiAltAssistantId = [], replicateToken = [], tinypngKey = [], imgbbKey = []\<rparr> = []
    \<or> imgbbKey \<lparr>openaiAltAssistantId = [], replicateToken = [], tinypngKey = [], imgbbKey = []\<rparr> = [])
   \<and> (\<exists>rs. processUnifiedWebPOptimization
              (Some \<lparr>openaiAltAssistantId = [], replicateToken = [], tinypngKey = [], imgbbKey = []\<rparr>)
              (\<lambda>i. ConversionFailed)
              [\<lparr>original = js ''http://a/1'', processed = Str (js ''https://r/1''), wasEnhanced = True,
                 error = None\<rparr>,
               \<lparr>original = js ''http://a/2'', processed = Str (js ''http://a/2''), wasEnhanced = False,
                 error = Some ReplicateError\<rparr>]
              [] = Inr rs
          \<and> map processedImageUrl rs = [Str (js ''https://r/1''), Str (js ''http://a/2'')]
          \<and> map confidence rs = [7, 5])"
  using processUnifiedWebPOptimization_unconfigured
    [of "\<lparr>openaiAltAssistantId = [], replicateToken = [], tinypngKey = [], imgbbKey = []\<rparr>"
        "\<lambda>i. ConversionFailed"
        "[\<lparr>original = js ''http://a/1'', processed = Str (js ''https://r/1''), wasEnhanced = True,
                 error = None\<rparr>,
               \<lparr>original = js ''http://a/2'', processed = Str (js ''http://a/2''), wasEnhanced = False,
                 error = Some ReplicateError\<rparr>]"
        "[]"]
  by simp

text \<open>
  C2 as stated fails: without keys an enhanced image gets confidence 7, not 5, and
  an image that was not enhanced gets 5, not 3.
\<close>

theorem processUnifiedWebPOptimization_counterexample:
  "map confidence
     (case processUnifiedWebPOptimization
             (Some \<lparr>openaiAltAssistantId = [], replicateToken = [], tinypngKey = [], imgbbKey = []\<rparr>)
             (\<lambda>i. ConversionFailed)
             [\<lparr>original = js ''http://a/1'', processed = Str (js ''https://r/1''), wasEnhanced = True,
                error = None\<rparr>,
              \<lparr>original = js ''http://a/2'', processed = Str (js ''http://a/2''), wasEnhanced = False,
                error = Some ReplicateError\<rparr>]
             []
      of Inr rs \<Rightarrow> rs | Inl e \<Rightarrow> [])
   = [7, 5]
   \<and> [7, 5] \<noteq> [5, 3 :: nat]"
  by (simp add: processUnifiedWebPOptimization_def map_index_def finished_def enumerate_eq_zip)

section \<open>Properties of the asset locator\<close>

lemma set_values_set: "set (set_values seen xs) = set xs - set seen"
  by (induction xs arbitrary: seen) auto

lemma set_values_distinct: "distinct (set_values seen xs)"
  by (induction xs arbitrary: seen) (auto simp: set_values_set)

text \<open>
  The values of the set are the first occurrences, in their order: dropping the later
  occurrences of every element, which is what \<open>remdups\<close> does on the reversed list.
\<close>

lemma set_values_snoc:
  "set_values seen (xs @ [x]) =
     set_values seen xs @ (if x \<in> set seen \<union> set xs then [] else [x])"
  by (induction xs arbitrary: seen) auto

lemma set_values_first_occurrences: "set_values [] xs = rev (remdups (rev xs))"
proof (induction xs rule: rev_induct)
  case Nil
  show ?case by simp
next
  case (snoc x xs)
  then show ?case
    by (simp add: set_values_snoc)
qed

text \<open>What a cell yields: the text between separators, trimmed, when it starts with "http".\<close>

lemma starts_with_http: "starts_with url (js ''http'') \<longleftrightarrow> take 4 url = [0x68, 0x74, 0x74, 0x70]"
proof -
  have "js ''http'' = [0x68, 0x74, 0x74, 0x70]"
    by (simp add: js_def)
  moreover have "length [0x68, 0x74, 0x74, 0x70 :: jschar] = 4"
    by simp
  ultimately show ?thesis
    by (simp only: starts_with_def)
qed

lemma starts_with_http_not_empty:
  assumes "starts_with url (js ''http'')"
  shows "url \<noteq> []"
  using assms by (auto simp: starts_with_def js_def)

lemma trim_core:
  assumes a: "list_all is_space a" and b: "list_all is_space b"
    and core: "core = [] \<or> (\<not> is_space (hd core) \<and> \<not> is_space (last core))"
  shows "trim (a @ core @ b) = core"
proof (cases "core = []")
  case True
  from a b have "\<forall>c \<in> set (a @ b). is_space c"
    by (auto simp: list_all_iff)
  then have "dropWhile is_space (a @ b) = []"
    by (simp only: dropWhile_eq_Nil_conv)
  then have "trim (a @ b) = []"
    unfolding trim_def by (simp only: rev.simps dropWhile.simps)
  with True show ?thesis
    by simp
next
  case False
  with core have ends: "\<not> is_space (hd core)" "\<not> is_space (last core)"
    by simp_all
  from a have "dropWhile is_space (a @ core @ b) = dropWhile is_space (core @ b)"
    by (simp add: list_all_iff dropWhile_append2)
  also from False ends(1) have "\<dots> = core @ b"
    by (cases core) simp_all
  finally have front: "dropWhile is_space (a @ core @ b) = core @ b" .
  from b have "dropWhile is_space (rev b @ rev core) = dropWhile is_space (rev core)"
    by (intro dropWhile_append2) (simp add: list_all_iff)
  also have "\<dots> = rev core"
  proof -
    from False ends(2) have "\<not> is_space (hd (rev core))"
      by (simp add: hd_rev)
    then show ?thesis
      by (cases "rev core") simp_all
  qed
  finally show ?thesis
    by (simp add: trim_def front)
qed

lemma trim_ends:
  "trim s = [] \<or> (\<not> is_space (hd (trim s)) \<and> \<not> is_space (last (trim s)))"
  using strip_ends_hd [of is_space s] strip_ends_last [of is_space s]
  by (auto simp: trim_def)

lemma trim_trim: "trim (trim s) = trim s"
  using trim_core [of "[]" "[]" "trim s"] trim_ends [of s] by simp

lemma trim_subset: "set (trim s) \<subseteq> set s"
  by (auto simp: trim_def dest!: set_dropWhileD)

lemma split_where_parts:
  "list_all (\<lambda>part. list_all (\<lambda>c. \<not> sep c) part) (split_where sep s)"
  by (induction s) (auto split: list.splits)

lemma parse_urls_empty: "parse_urls [] = []"
  by (simp add: parse_urls_def trim_def)

lemma parse_urls_separator:
  assumes "d = 0x0A \<or> d = 0x2C"
  shows "parse_urls (xs @ d # ys) = parse_urls xs @ parse_urls ys"
  using assms by (simp add: parse_urls_def split_where_append)

lemma parse_urls_piece:
  assumes "list_all (\<lambda>c. c \<noteq> 0x0A \<and> c \<noteq> 0x2C) piece"
  shows "parse_urls piece
         = (if take 4 (trim piece) = [0x68, 0x74, 0x74, 0x70] then [trim piece] else [])"
proof -
  from assms have "split_where (\<lambda>c. c = 0x0A \<or> c = 0x2C) piece = [piece]"
    by (intro split_where_no_separator) (simp add: list_all_iff)
  then show ?thesis
    using starts_with_http_not_empty [of "trim piece"]
    by (auto simp: parse_urls_def starts_with_http)
qed

lemma parse_urls_member:
  assumes "url \<in> set (parse_urls cell)"
  obtains part where "part \<in> set (split_where (\<lambda>c. c = 0x0A \<or> c = 0x2C) cell)"
    and "url = trim part" and "starts_with url (js ''http'')"
proof -
  from assms have "url \<in> set (filter (\<lambda>url. url \<noteq> [] \<and> starts_with url (js ''http''))
       (map trim (split_where (\<lambda>c. c = 0x0A \<or> c = 0x2C) cell)))"
    by (simp only: parse_urls_def)
  then have "url \<in> trim ` set (split_where (\<lambda>c. c = 0x0A \<or> c = 0x2C) cell)"
    and "starts_with url (js ''http'')"
    by (simp_all only: set_filter set_map mem_Collect_eq)
  with that show ?thesis
    by blast
qed

lemma parse_urls_valid:
  "list_all (\<lambda>url. take 4 url = [0x68, 0x74, 0x74, 0x70] \<and> trim url = url
                    \<and> list_all (\<lambda>c. c \<noteq> 0x0A \<and> c \<noteq> 0x2C) url)
     (parse_urls cell)"
proof -
  have "take 4 url = [0x68, 0x74, 0x74, 0x70] \<and> trim url = url
        \<and> list_all (\<lambda>c. c \<noteq> 0x0A \<and> c \<noteq> 0x2C) url"
    if "url \<in> set (parse_urls cell)" for url
  proof -
    from that obtain part where part: "part \<in> set (split_where (\<lambda>c. c = 0x0A \<or> c = 0x2C) cell)"
      and url: "url = trim part" and http: "starts_with url (js ''http'')"
      by (rule parse_urls_member)
    from part split_where_parts [of "\<lambda>c. c = 0x0A \<or> c = 0x2C" cell]
    have "\<forall>c \<in> set part. \<not> (c = 0x0A \<or> c = 0x2C)"
      unfolding list_all_iff by blast
    with trim_subset [of part] have "\<forall>c \<in> set (trim part). c \<noteq> 0x0A \<and> c \<noteq> 0x2C"
      by blast
    then have sepfree: "list_all (\<lambda>c. c \<noteq> 0x0A \<and> c \<noteq> 0x2C) url"
      unfolding list_all_iff url .
    from http have "take 4 url = [0x68, 0x74, 0x74, 0x70]"
      by (simp only: starts_with_http)
    moreover have "trim url = url"
      unfolding url by (rule trim_trim)
    ultimately show ?thesis
      using sepfree by blast
  qed
  then show ?thesis
    unfolding list_all_iff by blast
qed

lemma combineAllImages_subset:
  "set (combineAllImages orig supp addl)
   \<subseteq> set (parse_urls addl) \<union> set (parse_urls supp) \<union> set (parse_urls orig)"
  by (auto simp: combineAllImages_def Let_def set_values_set split: if_splits)

lemma combineAllImages_valid:
  "list_all (\<lambda>url. take 4 url = [0x68, 0x74, 0x74, 0x70] \<and> trim url = url
                    \<and> list_all (\<lambda>c. c \<noteq> 0x0A \<and> c \<noteq> 0x2C) url)
     (combineAllImages orig supp addl)"
proof -
  have "take 4 url = [0x68, 0x74, 0x74, 0x70] \<and> trim url = url
        \<and> list_all (\<lambda>c. c \<noteq> 0x0A \<and> c \<noteq> 0x2C) url"
    if "url \<in> set (combineAllImages orig supp addl)" for url
  proof -
    from that combineAllImages_subset [of orig supp addl] obtain cell where
      "url \<in> set (parse_urls cell)"
      by blast
    with parse_urls_valid [of cell] show ?thesis
      unfolding list_all_iff by (rule bspec)
  qed
  then show ?thesis
    unfolding list_all_iff by blast
qed


lemma combineAllImages_tier:
  "combineAllImages orig supp addl
   = rev (remdups (rev (if parse_urls addl \<noteq> [] then parse_urls addl
                         else if parse_urls supp \<noteq> [] then parse_urls supp
                         else parse_urls orig)))"
proof -
  have "combineAllImages orig supp addl
        = set_values [] (if parse_urls addl \<noteq> [] then parse_urls addl
                         else if parse_urls supp \<noteq> [] then parse_urls supp
                         else parse_urls orig)"
    using parse_urls_empty by (auto simp: combineAllImages_def Let_def)
  then show ?thesis
    by (simp only: set_values_first_occurrences)
qed

section \<open>Properties of the orchestrator\<close>







text \<open>The two stages, image by image.\<close>

lemma enhanced_nth:
  assumes "processReplicateWithFallback (Some s) preds images = Inr enhanced"
  shows "length enhanced = length images"
    and "i < length images \<Longrightarrow>
         enhanced ! i = (if replicateToken s = [] then pass_through (images ! i) None
                         else enhance_image (preds i) (images ! i))"
  using assms
  by (auto simp: processReplicateWithFallback_def length_map_index nth_map_index split: if_splits)

lemma finished_nth:
  assumes "processUnifiedWebPOptimization (Some s) opts enhanced analysisResults = Inr rs"
  shows "length rs = length enhanced"
    and "i < length enhanced \<Longrightarrow>
         rs ! i = (if tinypngKey s = [] \<or> imgbbKey s = []
                   then finished (analysis_or_default analysisResults i) (processed (enhanced ! i))
                          (if wasEnhanced (enhanced ! i) then 7 else 5)
                   else optimize_image (opts i) (analysis_or_default analysisResults i)
                          (enhanced ! i))"
  using assms
  by (auto simp: processUnifiedWebPOptimization_def length_map_index nth_map_index
      split: if_splits)

lemma optimize_image_url:
  "processedImageUrl (optimize_image io analysis img)
   = (case io of
        Converted v \<Rightarrow> if truthy v then v else processed img
      | _ \<Rightarrow> processed img)"
  by (cases io) (simp_all add: optimize_image_def finished_def)

lemma finished_url: "processedImageUrl (finished analysis url c) = url"
  by (simp add: finished_def)

lemma run_stages_results:
  assumes "combineAllImages (originalImages p) (supplierImages p) (additionalImages p) \<noteq> []"
    and "apiSettings sv = Some s"
  obtains enhanced rs where
    "processReplicateWithFallback (Some s) (predictions sv)
       (imagesToProcess
          (combineAllImages (originalImages p) (supplierImages p) (additionalImages p)))
     = Inr enhanced"
    and "processUnifiedWebPOptimization (Some s) (optimizations sv) enhanced
           (processOpenAIOriginals pf (Some s) (groups sv)
              (imagesToProcess
                 (combineAllImages (originalImages p) (supplierImages p) (additionalImages p)))
              (productName p))
         = Inr rs"
    and "run_stages pf sv p = Inr rs"
    and "analyzeImageSimple pf sv p = rs"
proof -
  let ?images = "imagesToProcess
          (combineAllImages (originalImages p) (supplierImages p) (additionalImages p))"
  obtain enhanced where
    enhanced: "processReplicateWithFallback (Some s) (predictions sv) ?images = Inr enhanced"
    by (cases "replicateToken s = []") (simp_all add: processReplicateWithFallback_def)
  obtain rs where
    rs: "processUnifiedWebPOptimization (Some s) (optimizations sv) enhanced
           (processOpenAIOriginals pf (Some s) (groups sv) ?images (productName p)) = Inr rs"
    by (cases "tinypngKey s = [] \<or> imgbbKey s = []")
      (simp_all add: processUnifiedWebPOptimization_def)
  from assms enhanced rs have run: "run_stages pf sv p = Inr rs"
    by (simp add: run_stages_def Let_def)
  then have "analyzeImageSimple pf sv p = rs"
    by (simp add: analyzeImageSimple_def)
  with enhanced rs run that show ?thesis
    by blast
qed

lemma result_urls:
  assumes "combineAllImages (originalImages p) (supplierImages p) (additionalImages p) \<noteq> []"
    and "apiSettings sv = Some s"
  shows "\<exists>enhanced.
    processReplicateWithFallback (Some s) (predictions sv)
       (imagesToProcess
          (combineAllImages (originalImages p) (supplierImages p) (additionalImages p)))
     = Inr enhanced
    \<and> run_stages pf sv p
         = processUnifiedWebPOptimization (Some s) (optimizations sv) enhanced
             (processOpenAIOriginals pf (Some s) (groups sv)
                (imagesToProcess
                   (combineAllImages (originalImages p) (supplierImages p) (additionalImages p)))
                (productName p))
    \<and> length (analyzeImageSimple pf sv p)
         = length (imagesToProcess
                     (combineAllImages (originalImages p) (supplierImages p) (additionalImages p)))
    \<and> (\<forall>i < length (analyzeImageSimple pf sv p).
          enhanced ! i
          = (if replicateToken s = []
             then pass_through
                    (imagesToProcess
                       (combineAllImages (originalImages p) (supplierImages p)
                          (additionalImages p)) ! i) None
             else enhance_image (predictions sv i)
                    (imagesToProcess
                       (combineAllImages (originalImages p) (supplierImages p)
                          (additionalImages p)) ! i))
          \<and> processedImageUrl (analyzeImageSimple pf sv p ! i)
            = (if tinypngKey s = [] \<or> imgbbKey s = [] then processed (enhanced ! i)
               else (case optimizations sv i of
                       Converted v \<Rightarrow> if truthy v then v else processed (enhanced ! i)
                     | _ \<Rightarrow> processed (enhanced ! i))))"
proof -
  let ?images = "imagesToProcess
          (combineAllImages (originalImages p) (supplierImages p) (additionalImages p))"
  from assms obtain enhanced rs where
    enhanced: "processReplicateWithFallback (Some s) (predictions sv) ?images = Inr enhanced"
    and rs: "processUnifiedWebPOptimization (Some s) (optimizations sv) enhanced
           (processOpenAIOriginals pf (Some s) (groups sv) ?images (productName p)) = Inr rs"
    and run: "run_stages pf sv p = Inr rs"
    and res: "analyzeImageSimple pf sv p = rs"
    by (rule run_stages_results)
  note e = enhanced_nth [OF enhanced]
  note f = finished_nth [OF rs]
  have len: "length (analyzeImageSimple pf sv p) = length ?images"
    by (simp add: res e(1) f(1))
  have url: "enhanced ! i
          = (if replicateToken s = [] then pass_through (?images ! i) None
             else enhance_image (predictions sv i) (?images ! i))
          \<and> processedImageUrl (analyzeImageSimple pf sv p ! i)
            = (if tinypngKey s = [] \<or> imgbbKey s = [] then processed (enhanced ! i)
               else (case optimizations sv i of
                       Converted v \<Rightarrow> if truthy v then v else processed (enhanced ! i)
                     | _ \<Rightarrow> processed (enhanced ! i)))"
    if "i < length (analyzeImageSimple pf sv p)" for i
  proof -
    from that len have i: "i < length ?images" "i < length enhanced"
      by (simp_all add: e(1))
    have "processedImageUrl (rs ! i)
            = (if tinypngKey s = [] \<or> imgbbKey s = [] then processed (enhanced ! i)
               else (case optimizations sv i of
                       Converted v \<Rightarrow> if truthy v then v else processed (enhanced ! i)
                     | _ \<Rightarrow> processed (enhanced ! i)))"
      by (cases "optimizations sv i")
        (simp_all add: f(2) [OF i(2)] finished_url optimize_image_url)
    with e(2) [OF i(1)] show ?thesis
      unfolding res by (rule conjI [rotated, rotated])
  qed
  from enhanced rs run len url show ?thesis
    by (intro exI [of _ enhanced]) simp
qed

text \<open>
  C3: the located images are the valid URLs of one cell only, the first of the cell
  of the user's selection, the supplier's cell and the platform's cell that has a
  valid URL, without the later occurrences of a URL and otherwise in the order of the
  cell. What a cell yields is fixed by three facts: a line feed or a comma separates
  two cells' worth of candidates; a text without separators yields itself, trimmed,
  when the trimmed text starts with "http", and nothing otherwise; and trimming takes
  the white space off both ends. A run that locates an image and reads its settings
  hands the first 10 located images, in their order, to the stages, and returns one
  result for each of them; when neither upscaling nor compression is configured the
  URLs of the results are those 10 images.
\<close>

theorem combineAllImages_priority:
  "combineAllImages orig supp addl
   = rev (remdups (rev (if parse_urls addl \<noteq> [] then parse_urls addl
                         else if parse_urls supp \<noteq> [] then parse_urls supp
                         else parse_urls orig)))
   \<and> distinct (combineAllImages orig supp addl)
   \<and> list_all (\<lambda>url. take 4 url = [0x68, 0x74, 0x74, 0x70] \<and> trim url = url
                      \<and> list_all (\<lambda>c. c \<noteq> 0x0A \<and> c \<noteq> 0x2C) url)
       (combineAllImages orig supp addl)
   \<and> (d = 0x0A \<or> d = 0x2C \<longrightarrow> parse_urls (xs @ d # ys) = parse_urls xs @ parse_urls ys)
   \<and> (list_all (\<lambda>c. c \<noteq> 0x0A \<and> c \<noteq> 0x2C) piece
        \<longrightarrow> parse_urls piece
            = (if take 4 (trim piece) = [0x68, 0x74, 0x74, 0x70] then [trim piece] else []))
   \<and> (list_all is_space a \<and> list_all is_space b
          \<and> (core = [] \<or> (\<not> is_space (hd core) \<and> \<not> is_space (last core)))
        \<longrightarrow> trim (a @ core @ b) = core)
   \<and> (combineAllImages (originalImages p) (supplierImages p) (additionalImages p) \<noteq> []
          \<and> apiSettings sv = Some s
        \<longrightarrow> length (analyzeImageSimple pf sv p)
            = min 10 (length (combineAllImages (originalImages p) (supplierImages p)
                                (additionalImages p)))
          \<and> (\<exists>enhanced.
                processReplicateWithFallback (Some s) (predictions sv)
                  (take 10 (combineAllImages (originalImages p) (supplierImages p)
                              (additionalImages p))) = Inr enhanced
                \<and> map original enhanced
                    = take 10 (combineAllImages (originalImages p) (supplierImages p)
                                 (additionalImages p))
                \<and> run_stages pf sv p
                    = processUnifiedWebPOptimization (Some s) (optimizations sv) enhanced
                        (processOpenAIOriginals pf (Some s) (groups sv)
                           (take 10 (combineAllImages (originalImages p) (supplierImages p)
                                       (additionalImages p)))
                           (productName p)))
          \<and> (replicateToken s = [] \<and> (tinypngKey s = [] \<or> imgbbKey s = [])
              \<longrightarrow> map processedImageUrl (analyzeImageSimple pf sv p)
                  = map Str (take 10 (combineAllImages (originalImages p) (supplierImages p)
                                        (additionalImages p)))))"
proof -
  let ?all = "combineAllImages (originalImages p) (supplierImages p) (additionalImages p)"
  have distinct: "distinct (combineAllImages orig supp addl)"
    by (simp add: combineAllImages_def Let_def set_values_distinct)
  have batch: "length (analyzeImageSimple pf sv p) = min 10 (length ?all)
          \<and> (\<exists>enhanced.
                processReplicateWithFallback (Some s) (predictions sv) (take 10 ?all) = Inr enhanced
                \<and> map original enhanced = take 10 ?all
                \<and> run_stages pf sv p
                    = processUnifiedWebPOptimization (Some s) (optimizations sv) enhanced
                        (processOpenAIOriginals pf (Some s) (groups sv) (take 10 ?all)
                           (productName p)))
          \<and> (replicateToken s = [] \<and> (tinypngKey s = [] \<or> imgbbKey s = [])
              \<longrightarrow> map processedImageUrl (analyzeImageSimple pf sv p) = map Str (take 10 ?all))"
    if located: "?all \<noteq> []" and settings: "apiSettings sv = Some s"
  proof -
    from result_urls [OF located settings, of pf] obtain enhanced where
      enhanced: "processReplicateWithFallback (Some s) (predictions sv) (imagesToProcess ?all)
                 = Inr enhanced"
      and run: "run_stages pf sv p
         = processUnifiedWebPOptimization (Some s) (optimizations sv) enhanced
             (processOpenAIOriginals pf (Some s) (groups sv) (imagesToProcess ?all)
                (productName p))"
      and len: "length (analyzeImageSimple pf sv p) = length (imagesToProcess ?all)"
      and url: "\<forall>i < length (analyzeImageSimple pf sv p).
          enhanced ! i
          = (if replicateToken s = [] then pass_through (imagesToProcess ?all ! i) None
             else enhance_image (predictions sv i) (imagesToProcess ?all ! i))
          \<and> processedImageUrl (analyzeImageSimple pf sv p ! i)
            = (if tinypngKey s = [] \<or> imgbbKey s = [] then processed (enhanced ! i)
               else (case optimizations sv i of
                       Converted v \<Rightarrow> if truthy v then v else processed (enhanced ! i)
                     | _ \<Rightarrow> processed (enhanced ! i)))"
      by (elim exE conjE)
    have orig: "map original enhanced = imagesToProcess ?all"
    proof (rule nth_equalityI)
      show "length (map original enhanced) = length (imagesToProcess ?all)"
        by (simp add: enhanced_nth(1) [OF enhanced])
      fix i
      assume "i < length (map original enhanced)"
      then have "i < length (imagesToProcess ?all)"
        by (simp add: enhanced_nth(1) [OF enhanced])
      then show "map original enhanced ! i = imagesToProcess ?all ! i"
        by (simp add: enhanced_nth [OF enhanced] enhance_image_original pass_through_def)
    qed
    have plain: "map processedImageUrl (analyzeImageSimple pf sv p) = map Str (imagesToProcess ?all)"
      if "replicateToken s = [] \<and> (tinypngKey s = [] \<or> imgbbKey s = [])"
      using that by (intro nth_equalityI) (simp_all add: len url pass_through_def)
    from enhanced run len orig plain show ?thesis
      by (auto simp: imagesToProcess_def min.commute)
  qed
  from combineAllImages_tier [of orig supp addl] distinct combineAllImages_valid [of orig supp addl]
    parse_urls_separator [of d xs ys] parse_urls_piece [of piece] trim_core [of a b core] batch
  show ?thesis
    by blast
qed





theorem combineAllImages_priority_witness:
  "combineAllImages (js ''http://o/1,http://s/2'')
     (js '' http://s/1 ,http://s/2'' @ [0x0A] @ js ''http://s/1,http://s/3,http://s/4,http://s/5, http://s/6,http://s/7,http://s/8,http://s/9,http://s/10,http://s/11,http://s/12'')
     (js ''ftp://u/1, '')
   = [js ''http://s/1'', js ''http://s/2'', js ''http://s/3'', js ''http://s/4'', js ''http://s/5'', js ''http://s/6'', js ''http://s/7'', js ''http://s/8'', js ''http://s/9'', js ''http://s/10'', js ''http://s/11'', js ''http://s/12'']
   \<and> length (analyzeImageSimple (basic_platform 17)
       \<lparr>apiSettings = Some \<lparr>openaiAltAssistantId = [], replicateToken = [], tinypngKey = [], imgbbKey = []\<rparr>,
      groups = (\<lambda>k. \<lparr>threadCreated = None, messagePosted = None, runCreated = None, statusPolls = (\<lambda>k. None), messagesFetched = MessagesRaised\<rparr>),
      predictions = (\<lambda>i. \<lparr>predictionCreated = Some 500, predictionPolls = (\<lambda>k. None)\<rparr>),
      optimizations = (\<lambda>i. ConversionFailed)\<rparr>
       \<lparr>article = [], productName = js ''Lamp'', originalImages = js ''http://o/1,http://s/2'', supplierImages = js '' http://s/1 ,http://s/2'' @ [0x0A] @ js ''http://s/1,http://s/3,http://s/4,http://s/5, http://s/6,http://s/7,http://s/8,http://s/9,http://s/10,http://s/11,http://s/12'', additionalImages = js ''ftp://u/1, ''\<rparr>) = 10
   \<and> map processedImageUrl (analyzeImageSimple (basic_platform 17)
       \<lparr>apiSettings = Some \<lparr>openaiAltAssistantId = [], replicateToken = [], tinypngKey = [], imgbbKey = []\<rparr>,
      groups = (\<lambda>k. \<lparr>threadCreated = None, messagePosted = None, runCreated = None, statusPolls = (\<lambda>k. None), messagesFetched = MessagesRaised\<rparr>),
      predictions = (\<lambda>i. \<lparr>predictionCreated = Some 500, predictionPolls = (\<lambda>k. None)\<rparr>),
      optimizations = (\<lambda>i. ConversionFailed)\<rparr>
       \<lparr>article = [], productName = js ''Lamp'', originalImages = js ''http://o/1,http://s/2'', supplierImages = js '' http://s/1 ,http://s/2'' @ [0x0A] @ js ''http://s/1,http://s/3,http://s/4,http://s/5, http://s/6,http://s/7,http://s/8,http://s/9,http://s/10,http://s/11,http://s/12'', additionalImages = js ''ftp://u/1, ''\<rparr>)
     = [Str (js ''http://s/1''), Str (js ''http://s/2''), Str (js ''http://s/3''), Str (js ''http://s/4''), Str (js ''http://s/5''), Str (js ''http://s/6''), Str (js ''http://s/7''), Str (js ''http://s/8''), Str (js ''http://s/9''), Str (js ''http://s/10'')]
   \<and> parse_urls (js ''ftp://u/1'' @ 0x2C # js '' http://s/1 '')
     = parse_urls (js ''ftp://u/1'') @ parse_urls (js '' http://s/1 '')
   \<and> parse_urls (js '' http://s/1 '') = [js ''http://s/1'']
   \<and> parse_urls (js ''ftp://u/1'') = []
   \<and> trim (js ''  '' @ js ''http://s/1'' @ js '' '') = js ''http://s/1''"
proof -
  let ?p = "\<lparr>article = [], productName = js ''Lamp'', originalImages = js ''http://o/1,http://s/2'', supplierImages = js '' http://s/1 ,http://s/2'' @ [0x0A] @ js ''http://s/1,http://s/3,http://s/4,http://s/5, http://s/6,http://s/7,http://s/8,http://s/9,http://s/10,http://s/11,http://s/12'', additionalImages = js ''ftp://u/1, ''\<rparr>"
  let ?sv = "\<lparr>apiSettings = Some \<lparr>openaiAltAssistantId = [], replicateToken = [], tinypngKey = [], imgbbKey = []\<rparr>,
      groups = (\<lambda>k. \<lparr>threadCreated = None, messagePosted = None, runCreated = None, statusPolls = (\<lambda>k. None), messagesFetched = MessagesRaised\<rparr>),
      predictions = (\<lambda>i. \<lparr>predictionCreated = Some 500, predictionPolls = (\<lambda>k. None)\<rparr>),
      optimizations = (\<lambda>i. ConversionFailed)\<rparr>"
  have located: "combineAllImages (js ''http://o/1,http://s/2'')
     (js '' http://s/1 ,http://s/2'' @ [0x0A] @ js ''http://s/1,http://s/3,http://s/4,http://s/5, http://s/6,http://s/7,http://s/8,http://s/9,http://s/10,http://s/11,http://s/12'')
     (js ''ftp://u/1, '')
   = [js ''http://s/1'', js ''http://s/2'', js ''http://s/3'', js ''http://s/4'', js ''http://s/5'', js ''http://s/6'', js ''http://s/7'', js ''http://s/8'', js ''http://s/9'', js ''http://s/10'', js ''http://s/11'', js ''http://s/12'']"
    by code_simp
  then have all: "combineAllImages (originalImages ?p) (supplierImages ?p) (additionalImages ?p)
   = [js ''http://s/1'', js ''http://s/2'', js ''http://s/3'', js ''http://s/4'', js ''http://s/5'', js ''http://s/6'', js ''http://s/7'', js ''http://s/8'', js ''http://s/9'', js ''http://s/10'', js ''http://s/11'', js ''http://s/12'']"
    by simp
  have sep: "list_all (\<lambda>c. c \<noteq> 0x0A \<and> c \<noteq> 0x2C) (js '' http://s/1 '')"
      "list_all (\<lambda>c. c \<noteq> 0x0A \<and> c \<noteq> 0x2C) (js ''ftp://u/1'')"
    by (simp_all add: js_def)
  have spaces: "list_all is_space (js ''  '')" "list_all is_space (js '' '')"
      "\<not> is_space (hd (js ''http://s/1''))" "\<not> is_space (last (js ''http://s/1''))"
    by (simp_all add: js_def is_space_def)
  have trims: "trim (js '' http://s/1 '') = js ''http://s/1''" "trim (js ''ftp://u/1'') = js ''ftp://u/1''"
    by code_simp+
  have heads: "take 4 (js ''http://s/1'') = [0x68, 0x74, 0x74, 0x70]"
      "take 4 (js ''ftp://u/1'') \<noteq> [0x68, 0x74, 0x74, 0x70]"
    by (simp_all add: js_def)
  note first = combineAllImages_priority [where d = "0x2C" and xs = "js ''ftp://u/1''"
      and ys = "js '' http://s/1 ''" and piece = "js '' http://s/1 ''" and a = "js ''  ''"
      and b = "js '' ''" and core = "js ''http://s/1''" and p = ?p and sv = ?sv
      and s = "\<lparr>openaiAltAssistantId = [], replicateToken = [], tinypngKey = [], imgbbKey = []\<rparr>" and pf = "basic_platform 17"]
  note second = combineAllImages_priority [where piece = "js ''ftp://u/1''"]
  from first all have batch: "length (analyzeImageSimple (basic_platform 17) ?sv ?p) = 10"
      "map processedImageUrl (analyzeImageSimple (basic_platform 17) ?sv ?p) = [Str (js ''http://s/1''), Str (js ''http://s/2''), Str (js ''http://s/3''), Str (js ''http://s/4''), Str (js ''http://s/5''), Str (js ''http://s/6''), Str (js ''http://s/7''), Str (js ''http://s/8''), Str (js ''http://s/9''), Str (js ''http://s/10'')]"
    by simp_all
  from first have "parse_urls (js ''ftp://u/1'' @ 0x2C # js '' http://s/1 '')
     = parse_urls (js ''ftp://u/1'') @ parse_urls (js '' http://s/1 '')"
    by blast
  moreover from first sep(1) trims(1) heads(1) have "parse_urls (js '' http://s/1 '') = [js ''http://s/1'']"
    by simp
  moreover from second sep(2) trims(2) heads(2) have "parse_urls (js ''ftp://u/1'') = []"
    by simp
  moreover from first spaces have "trim (js ''  '' @ js ''http://s/1'' @ js '' '') = js ''http://s/1''"
    by blast
  ultimately show ?thesis
    using located batch by (intro conjI)
qed



section \<open>Properties of the description stage\<close>
















text \<open>
  C4 on two images and an answer of the assistant whose array \<open>results\<close> has one
  item: the stage returns one result for the two images.
\<close>

theorem processOpenAIOriginals_short_reply:
  "length (processOpenAIOriginals (basic_platform 17) (Some \<lparr>openaiAltAssistantId = js ''asst_1'', replicateToken = [], tinypngKey = [], imgbbKey = []\<rparr>) (\<lambda>k. \<lparr>threadCreated = Some 200, messagePosted = Some 200, runCreated = Some (200, ''completed''), statusPolls = (\<lambda>k. None), messagesFetched = AssistantText (ResultsArray [Item (Str (js ''lamp on a desk'')) (Str (js ''desk-lamp.jpg''))])\<rparr>)
             [js ''http://a/1'', js ''http://a/2''] (js ''Lamp'')) = 1"
  by code_simp

end
